theory Spec2Isabelle
  imports Main "HOL-Library.Word" "HOL-Library.Multiset" "HOL-Library.Sublist"
begin

section \<open>JavaScript values\<close>

text \<open>
  A JavaScript string is a sequence of 16-bit code units. String literals of the sources
  are written \<open>js ''...''\<close>.
\<close>

type_synonym jschar = "16 word"
type_synonym jsstring = "jschar list"

definition js :: "string \<Rightarrow> jsstring" where
  "js s = map of_char s"

text \<open>
  The values that \<open>JSON.parse\<close> and the database driver hand to the program. A number
  is kept as the JSON numeral that wrote it: the sources never compute with one, and
  the rounding of a numeral to a double is outside this model.
\<close>

datatype jsval =
    JUndefined
  | JNull
  | JBool bool
  | JNum jsstring
  | JStr jsstring
  | JArr "jsval list"
  | JObj "(jsstring \<times> jsval) list"

definition is_digit :: "jschar \<Rightarrow> bool" where
  "is_digit c = (0x30 \<le> c \<and> c \<le> 0x39)"

text \<open>A numeral denotes zero when no digit of its mantissa is between 1 and 9.\<close>

definition num_nonzero :: "jsstring \<Rightarrow> bool" where
  "num_nonzero nm =
     list_ex (\<lambda>c. 0x31 \<le> c \<and> c \<le> 0x39) (takeWhile (\<lambda>c. c \<noteq> 0x65 \<and> c \<noteq> 0x45) nm)"

text \<open>\<open>ToBoolean\<close>, as used by \<open>||\<close>, \<open>!\<close> and the conditional operator.\<close>

fun truthy :: "jsval \<Rightarrow> bool" where
  "truthy JUndefined = False"
| "truthy JNull = False"
| "truthy (JBool b) = b"
| "truthy (JNum n) = num_nonzero n"
| "truthy (JStr s) = (s \<noteq> [])"
| "truthy (JArr _) = True"
| "truthy (JObj _) = True"

text \<open>\<open>a || b\<close> on values.\<close>

definition or_else :: "jsval \<Rightarrow> jsval \<Rightarrow> jsval" where
  "or_else a b = (if truthy a then a else b)"

text \<open>
  A field of a request body or a nullable text column is a string or is absent
  (\<open>undefined\<close>, \<open>null\<close>): \<open>None\<close>. \<open>!x\<close> holds of an absent field and of the empty
  string; \<open>x || ""\<close> replaces both by the empty string.
\<close>

definition falsy :: "jsstring option \<Rightarrow> bool" where
  "falsy x = (case x of None \<Rightarrow> True | Some s \<Rightarrow> s = [])"

definition or_empty :: "jsstring option \<Rightarrow> jsstring" where
  "or_empty x = (case x of None \<Rightarrow> [] | Some s \<Rightarrow> s)"

text \<open>
  \<open>v[0]\<close>. Reading a property of \<open>null\<close> or \<open>undefined\<close> throws a TypeError: \<open>None\<close>.
  An array gives its first element, a string its first code unit, an object its
  property \<open>"0"\<close> (the last one written, when the JSON text repeated the key);
  what is not there is \<open>undefined\<close>.
\<close>

fun index0 :: "jsval \<Rightarrow> jsval option" where
  "index0 JUndefined = None"
| "index0 JNull = None"
| "index0 (JBool _) = Some JUndefined"
| "index0 (JNum _) = Some JUndefined"
| "index0 (JStr s) = Some (case s of [] \<Rightarrow> JUndefined | c # _ \<Rightarrow> JStr [c])"
| "index0 (JArr vs) = Some (case vs of [] \<Rightarrow> JUndefined | v # _ \<Rightarrow> v)"
| "index0 (JObj ms) =
     Some (case map_of (rev ms) [0x30] of None \<Rightarrow> JUndefined | Some v \<Rightarrow> v)"

text \<open>
  \<open>String.prototype.trim\<close> removes white space and line terminators from both ends.
\<close>

definition is_js_space :: "jschar \<Rightarrow> bool" where
  "is_js_space c =
     (c = 0x09 \<or> c = 0x0A \<or> c = 0x0B \<or> c = 0x0C \<or> c = 0x0D \<or> c = 0x20 \<or> c = 0xA0
      \<or> c = 0x1680 \<or> (0x2000 \<le> c \<and> c \<le> 0x200A) \<or> c = 0x2028 \<or> c = 0x2029
      \<or> c = 0x202F \<or> c = 0x205F \<or> c = 0x3000 \<or> c = 0xFEFF)"

definition trim :: "jsstring \<Rightarrow> jsstring" where
  "trim s = rev (dropWhile is_js_space (rev (dropWhile is_js_space s)))"

section \<open>JSON text\<close>

subsection \<open>\<open>JSON.parse\<close>\<close>

definition is_json_ws :: "jschar \<Rightarrow> bool" where
  "is_json_ws c = (c = 0x20 \<or> c = 0x09 \<or> c = 0x0A \<or> c = 0x0D)"

definition skip_ws :: "jsstring \<Rightarrow> jsstring" where
  "skip_ws cs = dropWhile is_json_ws cs"

definition hexval :: "jschar \<Rightarrow> nat option" where
  "hexval c =
     (if 0x30 \<le> c \<and> c \<le> 0x39 then Some (unat c - 0x30)
      else if 0x61 \<le> c \<and> c \<le> 0x66 then Some (unat c - 0x57)
      else if 0x41 \<le> c \<and> c \<le> 0x46 then Some (unat c - 0x37)
      else None)"

definition hex4 :: "jschar \<Rightarrow> jschar \<Rightarrow> jschar \<Rightarrow> jschar \<Rightarrow> jschar option" where
  "hex4 a b c d =
     (case (hexval a, hexval b, hexval c, hexval d) of
        (Some x3, Some x2, Some x1, Some x0) \<Rightarrow>
          Some (of_nat (x3 * 4096 + x2 * 256 + x1 * 16 + x0))
      | _ \<Rightarrow> None)"

text \<open>The character after a backslash, other than \<open>u\<close>.\<close>

definition unescape :: "jschar \<Rightarrow> jschar option" where
  "unescape e =
     (if e = 0x22 then Some 0x22
      else if e = 0x5C then Some 0x5C
      else if e = 0x2F then Some 0x2F
      else if e = 0x62 then Some 0x08
      else if e = 0x66 then Some 0x0C
      else if e = 0x6E then Some 0x0A
      else if e = 0x72 then Some 0x0D
      else if e = 0x74 then Some 0x09
      else None)"

text \<open>
  The characters of a string, read after its opening quote up to the closing one;
  the result is the string and the text after the closing quote.
\<close>

fun parse_chars :: "jsstring \<Rightarrow> (jsstring \<times> jsstring) option" where
  "parse_chars [] = None"
| "parse_chars (c # cs) =
    (if c = 0x22 then Some ([], cs)
     else if c = 0x5C then
       (case cs of
          [] \<Rightarrow> None
        | e # es \<Rightarrow>
            if e = 0x75 then
              (case es of
                 h3 # h2 # h1 # h0 # rest \<Rightarrow>
                   (case hex4 h3 h2 h1 h0 of
                      None \<Rightarrow> None
                    | Some u \<Rightarrow>
                        (case parse_chars rest of
                           None \<Rightarrow> None
                         | Some (s, r) \<Rightarrow> Some (u # s, r)))
               | _ \<Rightarrow> None)
            else
              (case unescape e of
                 None \<Rightarrow> None
               | Some u \<Rightarrow>
                   (case parse_chars es of
                      None \<Rightarrow> None
                    | Some (s, r) \<Rightarrow> Some (u # s, r))))
     else if c < 0x20 then None
     else (case parse_chars cs of None \<Rightarrow> None | Some (s, r) \<Rightarrow> Some (c # s, r)))"

text \<open>
  A numeral: an optional minus, \<open>0\<close> or a digit sequence that does not start with
  \<open>0\<close>, an optional fraction, an optional exponent. The result is the numeral and the
  text after it.
\<close>

definition digits1 :: "jsstring \<Rightarrow> (jsstring \<times> jsstring) option" where
  "digits1 cs =
     (let ds = takeWhile is_digit cs
      in if ds = [] then None else Some (ds, dropWhile is_digit cs))"

definition parse_int_part :: "jsstring \<Rightarrow> (jsstring \<times> jsstring) option" where
  "parse_int_part cs =
     (case cs of
        [] \<Rightarrow> None
      | c # r \<Rightarrow> if c = 0x30 then Some ([c], r) else digits1 cs)"

definition parse_frac :: "jsstring \<Rightarrow> (jsstring \<times> jsstring) option" where
  "parse_frac cs =
     (case cs of
        [] \<Rightarrow> Some ([], cs)
      | c # r \<Rightarrow>
          if c = 0x2E then
            (case digits1 r of None \<Rightarrow> None | Some (ds, r') \<Rightarrow> Some (c # ds, r'))
          else Some ([], cs))"

definition parse_exp :: "jsstring \<Rightarrow> (jsstring \<times> jsstring) option" where
  "parse_exp cs =
     (case cs of
        [] \<Rightarrow> Some ([], cs)
      | c # r \<Rightarrow>
          if c = 0x65 \<or> c = 0x45 then
            (case r of
               [] \<Rightarrow> None
             | s # r' \<Rightarrow>
                 if s = 0x2B \<or> s = 0x2D then
                   (case digits1 r' of
                      None \<Rightarrow> None
                    | Some (ds, r'') \<Rightarrow> Some (c # s # ds, r''))
                 else
                   (case digits1 r of
                      None \<Rightarrow> None
                    | Some (ds, r'') \<Rightarrow> Some (c # ds, r'')))
          else Some ([], cs))"

definition parse_number :: "jsstring \<Rightarrow> (jsstring \<times> jsstring) option" where
  "parse_number cs =
     (let (sign, r0) = (case cs of
                          [] \<Rightarrow> ([], cs)
                        | c # r \<Rightarrow> if c = 0x2D then ([c], r) else ([], cs))
      in case parse_int_part r0 of
           None \<Rightarrow> None
         | Some (ip, r1) \<Rightarrow>
             (case parse_frac r1 of
                None \<Rightarrow> None
              | Some (fp, r2) \<Rightarrow>
                  (case parse_exp r2 of
                     None \<Rightarrow> None
                   | Some (ep, r3) \<Rightarrow> Some (sign @ ip @ fp @ ep, r3))))"

text \<open>The literals \<open>null\<close>, \<open>true\<close> and \<open>false\<close>.\<close>

definition parse_literal :: "jsstring \<Rightarrow> (jsval \<times> jsstring) option" where
  "parse_literal cs =
     (if prefix (js ''null'') cs then Some (JNull, drop 4 cs)
      else if prefix (js ''true'') cs then Some (JBool True, drop 4 cs)
      else if prefix (js ''false'') cs then Some (JBool False, drop 5 cs)
      else None)"

text \<open>
  A value, the elements of an array after its opening bracket, and the members of an
  object after its opening brace. The first argument bounds the depth of the
  recursion. \<open>JSON_parse\<close> starts with more than the length of the text, and no
  larger bound reads a text that this one rejects (\<open>JSON_parse_None\<close> below).
\<close>

fun parse_value :: "nat \<Rightarrow> jsstring \<Rightarrow> (jsval \<times> jsstring) option"
  and parse_elements :: "nat \<Rightarrow> jsstring \<Rightarrow> (jsval list \<times> jsstring) option"
  and parse_members :: "nat \<Rightarrow> jsstring \<Rightarrow> ((jsstring \<times> jsval) list \<times> jsstring) option"
where
  "parse_value 0 cs = None"
| "parse_value (Suc n) cs =
    (case cs of
       [] \<Rightarrow> None
     | c # r \<Rightarrow>
         if c = 0x22 then
           (case parse_chars r of None \<Rightarrow> None | Some (s, r') \<Rightarrow> Some (JStr s, r'))
         else if c = 0x5B then
           (case skip_ws r of
              [] \<Rightarrow> None
            | c' # r' \<Rightarrow>
                if c' = 0x5D then Some (JArr [], r')
                else (case parse_elements n (c' # r') of
                        None \<Rightarrow> None
                      | Some (vs, r'') \<Rightarrow> Some (JArr vs, r'')))
         else if c = 0x7B then
           (case skip_ws r of
              [] \<Rightarrow> None
            | c' # r' \<Rightarrow>
                if c' = 0x7D then Some (JObj [], r')
                else (case parse_members n (c' # r') of
                        None \<Rightarrow> None
                      | Some (ms, r'') \<Rightarrow> Some (JObj ms, r'')))
         else if c = 0x2D \<or> is_digit c then
           (case parse_number cs of None \<Rightarrow> None | Some (nm, r') \<Rightarrow> Some (JNum nm, r'))
         else parse_literal cs)"
| "parse_elements 0 cs = None"
| "parse_elements (Suc n) cs =
    (case parse_value n cs of
       None \<Rightarrow> None
     | Some (v, r) \<Rightarrow>
         (case skip_ws r of
            [] \<Rightarrow> None
          | c # r' \<Rightarrow>
              if c = 0x5D then Some ([v], r')
              else if c = 0x2C then
                (case parse_elements n (skip_ws r') of
                   None \<Rightarrow> None
                 | Some (vs, r'') \<Rightarrow> Some (v # vs, r''))
              else None))"
| "parse_members 0 cs = None"
| "parse_members (Suc n) cs =
    (case cs of
       [] \<Rightarrow> None
     | q # r0 \<Rightarrow>
         if q \<noteq> 0x22 then None
         else
           (case parse_chars r0 of
              None \<Rightarrow> None
            | Some (k, r1) \<Rightarrow>
                (case skip_ws r1 of
                   [] \<Rightarrow> None
                 | colon # r2 \<Rightarrow>
                     if colon \<noteq> 0x3A then None
                     else
                       (case parse_value n (skip_ws r2) of
                          None \<Rightarrow> None
                        | Some (v, r3) \<Rightarrow>
                            (case skip_ws r3 of
                               [] \<Rightarrow> None
                             | c # r4 \<Rightarrow>
                                 if c = 0x7D then Some ([(k, v)], r4)
                                 else if c = 0x2C then
                                   (case parse_members n (skip_ws r4) of
                                      None \<Rightarrow> None
                                    | Some (ms, r5) \<Rightarrow> Some ((k, v) # ms, r5))
                                 else None)))))"

text \<open>
  \<open>JSON.parse(text)\<close>: one value between optional white space, and nothing else.
  \<open>None\<close> is the SyntaxError.
\<close>

definition JSON_parse :: "jsstring \<Rightarrow> jsval option" where
  "JSON_parse text =
     (case parse_value (Suc (length text)) (skip_ws text) of
        None \<Rightarrow> None
      | Some (v, r) \<Rightarrow> if skip_ws r = [] then Some v else None)"

text \<open>
  A run of a parser with result \<open>v\<close> and rest \<open>r\<close> is settled when the rest is shorter
  than the text and every bound from the number of characters read on gives the same
  result.
\<close>

definition settled ::
  "(nat \<Rightarrow> jsstring \<Rightarrow> ('a \<times> jsstring) option) \<Rightarrow> jsstring \<Rightarrow> 'a \<Rightarrow> jsstring \<Rightarrow> bool" where
  "settled parse cs v r =
     (length r < length cs \<and> (\<forall>n. length cs - length r \<le> n \<longrightarrow> parse n cs = Some (v, r)))"

subsection \<open>\<open>JSON.stringify\<close>\<close>

definition hexdigit :: "nat \<Rightarrow> jschar" where
  "hexdigit n = (if n < 10 then 0x30 + of_nat n else 0x57 + of_nat n)"

definition UnicodeEscape :: "jschar \<Rightarrow> jsstring" where
  "UnicodeEscape c =
     [0x5C, 0x75, hexdigit (unat c div 4096), hexdigit (unat c div 256 mod 16),
      hexdigit (unat c div 16 mod 16), hexdigit (unat c mod 16)]"

definition is_leading_surrogate :: "jschar \<Rightarrow> bool" where
  "is_leading_surrogate c = (0xD800 \<le> c \<and> c \<le> 0xDBFF)"

definition is_trailing_surrogate :: "jschar \<Rightarrow> bool" where
  "is_trailing_surrogate c = (0xDC00 \<le> c \<and> c \<le> 0xDFFF)"

text \<open>One code unit that is not half of a surrogate pair.\<close>

definition quote_unit :: "jschar \<Rightarrow> jsstring" where
  "quote_unit c =
     (if c = 0x08 then [0x5C, 0x62]
      else if c = 0x09 then [0x5C, 0x74]
      else if c = 0x0A then [0x5C, 0x6E]
      else if c = 0x0C then [0x5C, 0x66]
      else if c = 0x0D then [0x5C, 0x72]
      else if c = 0x22 then [0x5C, 0x22]
      else if c = 0x5C then [0x5C, 0x5C]
      else if c < 0x20 \<or> is_leading_surrogate c \<or> is_trailing_surrogate c
        then UnicodeEscape c
      else [c])"

fun quote_units :: "jsstring \<Rightarrow> jsstring" where
  "quote_units [] = []"
| "quote_units [c] = quote_unit c"
| "quote_units (c # d # cs) =
     (if is_leading_surrogate c \<and> is_trailing_surrogate d then c # d # quote_units cs
      else quote_unit c @ quote_units (d # cs))"

definition QuoteJSONString :: "jsstring \<Rightarrow> jsstring" where
  "QuoteJSONString s = 0x22 # quote_units s @ [0x22]"

fun commas :: "jsstring list \<Rightarrow> jsstring" where
  "commas [] = []"
| "commas [x] = x"
| "commas (x # y # ys) = x @ 0x2C # commas (y # ys)"

text \<open>
  The text of a value inside an array or an object; \<open>undefined\<close> in an array is written
  \<open>null\<close>, and a member whose value is \<open>undefined\<close> is left out.
\<close>

fun stringify_value :: "jsval \<Rightarrow> jsstring"
  and stringify_elements :: "jsval list \<Rightarrow> jsstring list"
  and stringify_members :: "(jsstring \<times> jsval) list \<Rightarrow> jsstring list"
where
  "stringify_value JUndefined = js ''null''"
| "stringify_value JNull = js ''null''"
| "stringify_value (JBool b) = (if b then js ''true'' else js ''false'')"
| "stringify_value (JNum nm) = nm"
| "stringify_value (JStr s) = QuoteJSONString s"
| "stringify_value (JArr vs) = 0x5B # commas (stringify_elements vs) @ [0x5D]"
| "stringify_value (JObj ms) = 0x7B # commas (stringify_members ms) @ [0x7D]"
| "stringify_elements [] = []"
| "stringify_elements (v # vs) = stringify_value v # stringify_elements vs"
| "stringify_members [] = []"
| "stringify_members ((k, v) # ms) =
     (if v = JUndefined then stringify_members ms
      else (QuoteJSONString k @ 0x3A # stringify_value v) # stringify_members ms)"

text \<open>\<open>JSON.stringify(v)\<close>; it returns \<open>undefined\<close> for \<open>undefined\<close>: \<open>None\<close>.\<close>

definition JSON_stringify :: "jsval \<Rightarrow> jsstring option" where
  "JSON_stringify v = (if v = JUndefined then None else Some (stringify_value v))"

section \<open>Requests, responses and the environment of a request\<close>

text \<open>
  What a handler reads of a request: the route parameter after
  \<open>Number(req.params.id)\<close>, taken to be an integer; the fields of \<open>req.body\<close>, an
  object whose fields are strings, or absent (a field that is not a string is never
  equal to a secret, as a wrong string is not); and \<open>req.files\<close> with the names that
  the upload middleware gave to the files, when it is there.
\<close>

record req =
  params_id :: int
  adminPassword :: "jsstring option"
  title :: "jsstring option"
  category :: "jsstring option"
  content :: "jsstring option"
  affiliateLink :: "jsstring option"
  files :: "jsstring list option"

text \<open>
  What a handler reads of the world while it runs: \<open>Date.now()\<close>, \<open>new Date()\<close>, the
  clock of the database, and whether the first and the second call of
  \<open>pool.query\<close> resolve (the promise is rejected when storage fails).
\<close>

record env =
  date_now :: int
  new_date :: int
  db_now :: int
  query1_ok :: bool
  query2_ok :: bool

text \<open>
  The bodies passed to \<open>res.json\<close>: the array of posts, \<open>{success: true, post}\<close>,
  \<open>{success: true}\<close>, and \<open>{error}\<close> under \<open>res.status\<close>.
\<close>

datatype 'p response =
    Posts "'p list"
  | SuccessPost 'p
  | Success
  | Error nat jsstring

fun status :: "'p response \<Rightarrow> nat" where
  "status (Posts _) = 200"
| "status (SuccessPost _) = 200"
| "status Success = 200"
| "status (Error code _) = code"

text \<open>\<open>(req.files || []).map((file) => `/uploads/${file.filename}`)\<close>\<close>

definition upload_urls :: "req \<Rightarrow> jsstring list" where
  "upload_urls r =
     map (\<lambda>filename. js ''/uploads/'' @ filename)
       (case files r of None \<Rightarrow> [] | Some fs \<Rightarrow> fs)"

text \<open>\<open>xs[0] || ""\<close> on a list of strings.\<close>

definition first_or_empty :: "jsstring list \<Rightarrow> jsstring" where
  "first_or_empty xs = (case xs of [] \<Rightarrow> [] | x # _ \<Rightarrow> x)"

text \<open>
  Sorting by insertion: \<open>le x y\<close> says that \<open>x\<close> may stand before \<open>y\<close>. Elements that
  may stand either way keep the order they had.
\<close>

fun insert_by :: "('a \<Rightarrow> 'a \<Rightarrow> bool) \<Rightarrow> 'a \<Rightarrow> 'a list \<Rightarrow> 'a list" where
  "insert_by le x [] = [x]"
| "insert_by le x (y # ys) = (if le x y then x # y # ys else y # insert_by le x ys)"

fun sort_by :: "('a \<Rightarrow> 'a \<Rightarrow> bool) \<Rightarrow> 'a list \<Rightarrow> 'a list" where
  "sort_by le [] = []"
| "sort_by le (x # xs) = insert_by le x (sort_by le xs)"

section \<open>The names of uploaded files\<close>

text \<open>
  \<open>Number::toString\<close> of an integer below \<open>10^21\<close> in absolute value: its decimal
  digits, after a minus sign when it is negative. \<open>Date.now()\<close> and
  \<open>Math.round(Math.random() * 1e9)\<close> are such integers.
\<close>

function digits_of :: "int \<Rightarrow> jsstring" where
  "digits_of n =
     (if n < 10 then [0x30 + of_int n]
      else digits_of (n div 10) @ [0x30 + of_int (n mod 10)])"
  by pat_completeness auto
termination
  by (relation "measure nat") auto

declare digits_of.simps [simp del]

definition number_to_string :: "int \<Rightarrow> jsstring" where
  "number_to_string i = (if i < 0 then 0x2D # digits_of (- i) else digits_of i)"

text \<open>
  \<open>path.extname\<close> (POSIX): in the last segment of the path, trailing slashes aside,
  the text from the last dot on; the empty string when the segment has no dot, when
  its only dot is its first character, and for the segment \<open>..\<close>.
\<close>

definition last_segment :: "jsstring \<Rightarrow> jsstring" where
  "last_segment path =
     rev (takeWhile (\<lambda>c. c \<noteq> 0x2F) (dropWhile (\<lambda>c. c = 0x2F) (rev path)))"

definition extname :: "jsstring \<Rightarrow> jsstring" where
  "extname path =
     (let seg = last_segment path;
          after_dot = rev (takeWhile (\<lambda>c. c \<noteq> 0x2E) (rev seg))
      in if 0x2E \<notin> set seg then []
         else if length seg = Suc (length after_dot) then []
         else if seg = [0x2E, 0x2E] then []
         else 0x2E # after_dot)"

text \<open>
  The \<open>filename\<close> callback of \<open>multer.diskStorage\<close>, given \<open>file.fieldname\<close>,
  \<open>file.originalname\<close>, and what \<open>Date.now()\<close> and
  \<open>Math.round(Math.random() * 1e9)\<close> return when it runs.
\<close>

definition filename :: "jsstring \<Rightarrow> jsstring \<Rightarrow> int \<Rightarrow> int \<Rightarrow> jsstring" where
  "filename fieldname originalname now rnd =
     (let uniqueSuffix = number_to_string now @ js ''-'' @ number_to_string rnd;
          ext = extname originalname
      in fieldname @ js ''-'' @ uniqueSuffix @ ext)"

text \<open>
  Reading a number back from the front of a text, and the value of a digit sequence;
  both serve to tell generated names apart.
\<close>

fun read_number :: "jsstring \<Rightarrow> jsstring \<times> jsstring" where
  "read_number [] = ([], [])"
| "read_number (c # cs) =
     (if c = 0x2D then (c # takeWhile is_digit cs, dropWhile is_digit cs)
      else (takeWhile is_digit (c # cs), dropWhile is_digit (c # cs)))"

definition digits_value :: "jsstring \<Rightarrow> int" where
  "digits_value ds = foldl (\<lambda>a c. 10 * a + (uint c - 48)) 0 ds"

section \<open>server.js: the posts table\<close>

record row =
  row_id :: int
  row_title :: jsstring
  row_category :: "jsstring option"
  row_content :: jsstring
  row_images :: jsval
  row_image_url :: "jsstring option"
  row_affiliate_link :: "jsstring option"
  row_created_at :: "int option"
  row_updated_at :: "int option"

text \<open>
  Modelled from the spec: the declaration of the table is not in the sources. The
  table, and the sequence from which its auto-assigned ids come; the first id is 1.
\<close>

record db =
  posts :: "row list"
  posts_id_seq :: int

definition empty_db :: db where
  "empty_db = \<lparr>posts = [], posts_id_seq = 1\<rparr>"

text \<open>
  How the driver writes a query parameter that is not a string (node-postgres,
  \<open>prepareValue\<close>): \<open>null\<close> and \<open>undefined\<close> are NULL, an array is an array literal,
  an object its JSON text, anything else its \<open>toString()\<close>.
\<close>

definition escapeElement :: "jsstring \<Rightarrow> jsstring" where
  "escapeElement s =
     0x22 # concat (map (\<lambda>c. if c = 0x5C \<or> c = 0x22 then [0x5C, c] else [c]) s) @ [0x22]"

fun prepareValue :: "jsval \<Rightarrow> jsstring option"
  and arrayString :: "jsval list \<Rightarrow> jsstring list"
where
  "prepareValue JUndefined = None"
| "prepareValue JNull = None"
| "prepareValue (JBool b) = Some (if b then js ''true'' else js ''false'')"
| "prepareValue (JNum n) = Some n"
| "prepareValue (JStr s) = Some s"
| "prepareValue (JArr vs) = Some (0x7B # commas (arrayString vs) @ [0x7D])"
| "prepareValue (JObj ms) = Some (stringify_value (JObj ms))"
| "arrayString [] = []"
| "arrayString (v # vs) =
     (case v of
        JArr ws \<Rightarrow> (case prepareValue v of None \<Rightarrow> js ''NULL'' | Some s \<Rightarrow> s)
      | _ \<Rightarrow> (case prepareValue v of None \<Rightarrow> js ''NULL'' | Some s \<Rightarrow> escapeElement s))
     # arrayString vs"

text \<open>\<open>ORDER BY created_at DESC\<close>: later rows first, and NULL before every time.\<close>

definition created_desc :: "row \<Rightarrow> row \<Rightarrow> bool" where
  "created_desc r s =
     (case row_created_at r of
        None \<Rightarrow> True
      | Some a \<Rightarrow> (case row_created_at s of None \<Rightarrow> False | Some b \<Rightarrow> b \<le> a))"

text \<open>
  \<open>SELECT ... FROM posts ORDER BY created_at DESC\<close>. \<open>None\<close> is the rejected promise.
\<close>

definition select_posts :: "bool \<Rightarrow> db \<Rightarrow> row list option" where
  "select_posts ok d = (if ok then Some (sort_by created_desc (posts d)) else None)"

text \<open>\<open>SELECT ... FROM posts WHERE id = $1\<close>\<close>

definition select_post :: "bool \<Rightarrow> int \<Rightarrow> db \<Rightarrow> row list option" where
  "select_post ok postId d =
     (if ok then Some (filter (\<lambda>r. row_id r = postId) (posts d)) else None)"

text \<open>
  Modelled from the spec: the declaration of the table is not in the sources, and the
  spec's schema has \<open>images\<close> as a JSON array of text. So the \<open>images\<close> column holds
  the value that the JSON text of its parameter denotes, NULL for a missing parameter;
  text that is not JSON fails the query.
\<close>

definition jsonb_in :: "jsstring option \<Rightarrow> jsval option" where
  "jsonb_in p = (case p of None \<Rightarrow> Some JNull | Some jtext \<Rightarrow> JSON_parse jtext)"

text \<open>
  Modelled from the spec: the declaration of the table is not in the sources. The
  spec's schema has \<open>id\<close> as the primary key, auto-assigned, a created timestamp set
  once at creation, and an updated timestamp that is absent until the first update.
  So the statement
  \<open>INSERT INTO posts (title, category, content, images, image_url, affiliate_link)
  VALUES ($1, $2, $3, $4, $5, $6) RETURNING ...\<close>
  takes the id from the sequence and the created time from the database's clock, and
  leaves \<open>updated_at\<close> NULL.
\<close>

definition insert_post ::
  "bool \<Rightarrow> int \<Rightarrow> jsstring \<Rightarrow> jsstring \<Rightarrow> jsstring \<Rightarrow> jsstring option \<Rightarrow> jsstring
     \<Rightarrow> jsstring \<Rightarrow> db \<Rightarrow> (row list \<times> db) option" where
  "insert_post ok now p1 p2 p3 p4 p5 p6 d =
     (if \<not> ok then None
      else case jsonb_in p4 of
        None \<Rightarrow> None
      | Some imgs \<Rightarrow>
          (let r = \<lparr>row_id = posts_id_seq d, row_title = p1, row_category = Some p2,
                    row_content = p3, row_images = imgs, row_image_url = Some p5,
                    row_affiliate_link = Some p6, row_created_at = Some now,
                    row_updated_at = None\<rparr>
           in Some ([r], d\<lparr>posts := posts d @ [r], posts_id_seq := posts_id_seq d + 1\<rparr>)))"

text \<open>
  \<open>UPDATE posts SET title = $1, category = $2, content = $3, affiliate_link = $4,
  images = $5, image_url = $6, updated_at = $7 WHERE id = $8 RETURNING ...\<close>
\<close>

definition update_post ::
  "bool \<Rightarrow> jsstring \<Rightarrow> jsstring \<Rightarrow> jsstring \<Rightarrow> jsstring \<Rightarrow> jsstring option
     \<Rightarrow> jsstring option \<Rightarrow> int \<Rightarrow> int \<Rightarrow> db \<Rightarrow> (row list \<times> db) option" where
  "update_post ok p1 p2 p3 p4 p5 p6 p7 p8 d =
     (if \<not> ok then None
      else case jsonb_in p5 of
        None \<Rightarrow> None
      | Some imgs \<Rightarrow>
          (let upd = (\<lambda>r. r\<lparr>row_title := p1, row_category := Some p2, row_content := p3,
                             row_affiliate_link := Some p4, row_images := imgs,
                             row_image_url := p6, row_updated_at := Some p7\<rparr>);
               rows = map (\<lambda>r. if row_id r = p8 then upd r else r) (posts d)
           in Some (filter (\<lambda>r. row_id r = p8) rows, d\<lparr>posts := rows\<rparr>)))"

text \<open>\<open>DELETE FROM posts WHERE id = $1 RETURNING id\<close>\<close>

definition delete_post :: "bool \<Rightarrow> int \<Rightarrow> db \<Rightarrow> (int list \<times> db) option" where
  "delete_post ok postId d =
     (if \<not> ok then None
      else Some (map row_id (filter (\<lambda>r. row_id r = postId) (posts d)),
                 d\<lparr>posts := filter (\<lambda>r. row_id r \<noteq> postId) (posts d)\<rparr>))"

section \<open>server.js: the handlers\<close>

text \<open>
  The images of a stored row as a value: lines 20 to 29 of \<open>mapDbPost\<close>, written
  again at lines 198 to 207 of the PUT handler.
\<close>

definition normalize_images :: "jsval \<Rightarrow> jsval" where
  "normalize_images v =
     (case v of
        JArr vs \<Rightarrow> JArr vs
      | JStr s \<Rightarrow>
          if trim s \<noteq> [] then (case JSON_parse s of None \<Rightarrow> JArr [] | Some p \<Rightarrow> p)
          else JArr []
      | _ \<Rightarrow> JArr [])"

text \<open>\<open>row.image_url || (images[0] || "")\<close>; \<open>None\<close> is the TypeError of \<open>images[0]\<close>.\<close>

definition primary_image :: "jsstring option \<Rightarrow> jsval \<Rightarrow> jsval option" where
  "primary_image image_url images =
     (if \<not> falsy image_url then Some (JStr (or_empty image_url))
      else case index0 images of
             None \<Rightarrow> None
           | Some v \<Rightarrow> Some (or_else v (JStr [])))"

text \<open>
  The post of the API. A time stands for its ISO 8601 text, which \<open>toISOString\<close>
  writes; \<open>None\<close> is \<open>null\<close>.
\<close>

record post =
  post_id :: int
  post_title :: jsstring
  post_category :: jsstring
  post_content :: jsstring
  post_images :: jsval
  post_imageUrl :: jsval
  post_affiliateLink :: jsstring
  post_date :: "int option"
  post_updatedAt :: "int option"

definition mapDbPost :: "row \<Rightarrow> post option" where
  "mapDbPost row =
     (let images = normalize_images (row_images row);
          createdAt = row_created_at row;
          updatedAt = row_updated_at row
      in case primary_image (row_image_url row) images of
           None \<Rightarrow> None
         | Some imageUrl \<Rightarrow>
             Some \<lparr>post_id = row_id row,
                   post_title = row_title row,
                   post_category = or_empty (row_category row),
                   post_content = row_content row,
                   post_images = images,
                   post_imageUrl = imageUrl,
                   post_affiliateLink = or_empty (row_affiliate_link row),
                   post_date = createdAt,
                   post_updatedAt = updatedAt\<rparr>)"

text \<open>
  \<open>mapDbPost(result.rows[0])\<close> and the response that follows it; no row, or a
  TypeError in \<open>mapDbPost\<close>, ends in the \<open>catch\<close> of the handler.
\<close>

definition respond_post :: "jsstring \<Rightarrow> row list \<Rightarrow> post response" where
  "respond_post failed rows =
     (case rows of
        [] \<Rightarrow> Error 500 failed
      | r # _ \<Rightarrow> (case mapDbPost r of None \<Rightarrow> Error 500 failed | Some p \<Rightarrow> SuccessPost p))"

text \<open>\<open>app.get("/api/posts", ...)\<close>\<close>

definition GET_api_posts :: "env \<Rightarrow> db \<Rightarrow> post response \<times> db" where
  "GET_api_posts e d =
     (case select_posts (query1_ok e) d of
        None \<Rightarrow> (Error 500 (js ''Failed to fetch posts''), d)
      | Some rows \<Rightarrow>
          (case those (map mapDbPost rows) of
             None \<Rightarrow> (Error 500 (js ''Failed to fetch posts''), d)
           | Some ps \<Rightarrow> (Posts ps, d)))"

text \<open>
  \<open>app.post("/api/posts", ...)\<close>. The first argument is \<open>ADMIN_PASSWORD\<close>, that is
  \<open>process.env.ADMIN_PASSWORD\<close>: a string, or \<open>undefined\<close> when the variable is not
  set. After the validation \<open>title\<close> and \<open>content\<close> are non-empty strings, which
  \<open>or_empty\<close> reads.
\<close>

definition POST_api_posts :: "jsstring option \<Rightarrow> env \<Rightarrow> req \<Rightarrow> db \<Rightarrow> post response \<times> db" where
  "POST_api_posts ADMIN_PASSWORD e r d =
     (if adminPassword r \<noteq> ADMIN_PASSWORD then (Error 401 (js ''Unauthorized''), d)
      else if falsy (title r) \<or> falsy (content r)
        then (Error 400 (js ''Title and content are required''), d)
      else
        (let imageUrls = upload_urls r;
             imagesJson = JSON_stringify (JArr (map JStr imageUrls));
             mainImage = first_or_empty imageUrls
         in case insert_post (query1_ok e) (db_now e) (or_empty (title r))
                   (or_empty (category r)) (or_empty (content r)) imagesJson mainImage
                   (or_empty (affiliateLink r)) d of
              None \<Rightarrow> (Error 500 (js ''Failed to create post''), d)
            | Some (rows, d') \<Rightarrow> (respond_post (js ''Failed to create post'') rows, d')))"

text \<open>\<open>app.put("/api/posts/:id", ...)\<close>\<close>

definition PUT_api_posts_id :: "jsstring option \<Rightarrow> env \<Rightarrow> req \<Rightarrow> db \<Rightarrow> post response \<times> db" where
  "PUT_api_posts_id ADMIN_PASSWORD e r d =
     (let postId = params_id r
      in if adminPassword r \<noteq> ADMIN_PASSWORD then (Error 401 (js ''Unauthorized''), d)
      else if falsy (title r) \<or> falsy (content r)
        then (Error 400 (js ''Title and content are required''), d)
      else
        (case select_post (query1_ok e) postId d of
           None \<Rightarrow> (Error 500 (js ''Failed to update post''), d)
         | Some [] \<Rightarrow> (Error 404 (js ''Post not found''), d)
         | Some (existing # _) \<Rightarrow>
             (let existingImages = normalize_images (row_images existing);
                  newImageUrls = upload_urls r;
                  finalImages = (case newImageUrls of
                                   [] \<Rightarrow> existingImages
                                 | _ # _ \<Rightarrow> JArr (map JStr newImageUrls));
                  finalImageUrl = (case newImageUrls of
                                     [] \<Rightarrow> primary_image (row_image_url existing) existingImages
                                   | u # _ \<Rightarrow> Some (JStr u));
                  updatedAt = new_date e;
                  imagesJson = JSON_stringify finalImages
              in case finalImageUrl of
                   None \<Rightarrow> (Error 500 (js ''Failed to update post''), d)
                 | Some url \<Rightarrow>
                     (case update_post (query2_ok e) (or_empty (title r))
                             (or_empty (category r)) (or_empty (content r))
                             (or_empty (affiliateLink r)) imagesJson (prepareValue url)
                             updatedAt postId d of
                        None \<Rightarrow> (Error 500 (js ''Failed to update post''), d)
                      | Some (rows, d') \<Rightarrow>
                          (respond_post (js ''Failed to update post'') rows, d')))))"

text \<open>\<open>app.delete("/api/posts/:id", ...)\<close>\<close>

definition DELETE_api_posts_id :: "jsstring option \<Rightarrow> env \<Rightarrow> req \<Rightarrow> db \<Rightarrow> post response \<times> db" where
  "DELETE_api_posts_id ADMIN_PASSWORD e r d =
     (let postId = params_id r
      in if adminPassword r \<noteq> ADMIN_PASSWORD then (Error 401 (js ''Unauthorized''), d)
      else
        (case delete_post (query1_ok e) postId d of
           None \<Rightarrow> (Error 500 (js ''Failed to delete post''), d)
         | Some ([], d') \<Rightarrow> (Error 404 (js ''Post not found''), d')
         | Some (_ # _, d') \<Rightarrow> (Success, d')))"

section \<open>The server that keeps its posts in posts.json\<close>

text \<open>
  The second server of the repository, the source with \<open>readPosts\<close> and
  \<open>writePosts\<close>, has the same four routes and keeps the posts in the file
  \<open>POSTS_FILE\<close>. A stored post is an object; \<open>None\<close> is a property that is \<open>undefined\<close>, which
  \<open>JSON.stringify\<close> leaves out of the file. A date stands for its ISO 8601 text.
\<close>

record fpost =
  fp_id :: int
  fp_title :: jsstring
  fp_category :: "jsstring option"
  fp_content :: jsstring
  fp_images :: "jsstring list option"
  fp_imageUrl :: "jsstring option"
  fp_affiliateLink :: "jsstring option"
  fp_date :: int
  fp_updatedAt :: "int option"

text \<open>
  \<open>posts.json\<close>: missing, empty, or the JSON text of a list of posts, which stands
  here as the list it encodes.
\<close>

datatype posts_file = NoFile | EmptyFile | PostsJson "fpost list"

fun readPosts :: "posts_file \<Rightarrow> fpost list" where
  "readPosts NoFile = []"
| "readPosts EmptyFile = []"
| "readPosts (PostsJson ps) = ps"

definition writePosts :: "fpost list \<Rightarrow> posts_file" where
  "writePosts ps = PostsJson ps"

text \<open>\<open>Array.prototype.findIndex\<close>; \<open>None\<close> is \<open>-1\<close>.\<close>

fun findIndex :: "('a \<Rightarrow> bool) \<Rightarrow> 'a list \<Rightarrow> nat option" where
  "findIndex P [] = None"
| "findIndex P (x # xs) =
     (if P x then Some 0 else (case findIndex P xs of None \<Rightarrow> None | Some i \<Rightarrow> Some (Suc i)))"

text \<open>
  \<open>app.get("/api/posts", ...)\<close>: \<open>posts.sort((a, b) => new Date(b.date) - new Date(a.date))\<close>
  leaves \<open>a\<close> before \<open>b\<close> when the difference is not positive.
\<close>

definition GET_api_posts_json :: "posts_file \<Rightarrow> fpost response \<times> posts_file" where
  "GET_api_posts_json f =
     (let posts = readPosts f
      in (Posts (sort_by (\<lambda>a b. fp_date b - fp_date a \<le> 0) posts), f))"

text \<open>\<open>app.post("/api/posts", ...)\<close>\<close>

definition POST_api_posts_json ::
  "jsstring option \<Rightarrow> env \<Rightarrow> req \<Rightarrow> posts_file \<Rightarrow> fpost response \<times> posts_file" where
  "POST_api_posts_json ADMIN_PASSWORD e r f =
     (if adminPassword r \<noteq> ADMIN_PASSWORD then (Error 401 (js ''Unauthorized''), f)
      else if falsy (title r) \<or> falsy (content r)
        then (Error 400 (js ''Title and content are required''), f)
      else
        (let posts = readPosts f;
             imageUrls = upload_urls r;
             newPost = \<lparr>fp_id = date_now e,
                        fp_title = or_empty (title r),
                        fp_category = Some (or_empty (category r)),
                        fp_content = or_empty (content r),
                        fp_images = Some imageUrls,
                        fp_imageUrl = Some (first_or_empty imageUrls),
                        fp_affiliateLink = Some (or_empty (affiliateLink r)),
                        fp_date = new_date e,
                        fp_updatedAt = None\<rparr>
         in (SuccessPost newPost, writePosts (posts @ [newPost]))))"

text \<open>\<open>app.put("/api/posts/:id", ...)\<close>\<close>

definition PUT_api_posts_id_json ::
  "jsstring option \<Rightarrow> env \<Rightarrow> req \<Rightarrow> posts_file \<Rightarrow> fpost response \<times> posts_file" where
  "PUT_api_posts_id_json ADMIN_PASSWORD e r f =
     (let postId = params_id r
      in if adminPassword r \<noteq> ADMIN_PASSWORD then (Error 401 (js ''Unauthorized''), f)
      else if falsy (title r) \<or> falsy (content r)
        then (Error 400 (js ''Title and content are required''), f)
      else
        (let posts = readPosts f
         in case findIndex (\<lambda>p. fp_id p = postId) posts of
              None \<Rightarrow> (Error 404 (js ''Post not found''), f)
            | Some idx \<Rightarrow>
                (let existingPost = posts ! idx;
                     newImageUrls = upload_urls r;
                     existingImages = (case fp_images existingPost of
                                         None \<Rightarrow> []
                                       | Some xs \<Rightarrow> xs);
                     finalImages = (case newImageUrls of
                                      [] \<Rightarrow> existingImages
                                    | _ # _ \<Rightarrow> newImageUrls);
                     finalImageUrl = (case newImageUrls of
                                        [] \<Rightarrow>
                                          if \<not> falsy (fp_imageUrl existingPost)
                                            then or_empty (fp_imageUrl existingPost)
                                          else first_or_empty existingImages
                                      | u # _ \<Rightarrow> u);
                     updated = existingPost
                       \<lparr>fp_title := or_empty (title r),
                        fp_category := category r,
                        fp_content := or_empty (content r),
                        fp_affiliateLink := affiliateLink r,
                        fp_images := Some finalImages,
                        fp_imageUrl := Some finalImageUrl,
                        fp_updatedAt := Some (new_date e)\<rparr>
                 in (SuccessPost updated, writePosts (posts[idx := updated])))))"

text \<open>\<open>app.delete("/api/posts/:id", ...)\<close>\<close>

definition DELETE_api_posts_id_json ::
  "jsstring option \<Rightarrow> req \<Rightarrow> posts_file \<Rightarrow> fpost response \<times> posts_file" where
  "DELETE_api_posts_id_json ADMIN_PASSWORD r f =
     (let postId = params_id r
      in if adminPassword r \<noteq> ADMIN_PASSWORD then (Error 401 (js ''Unauthorized''), f)
      else
        (let posts = readPosts f;
             originalLength = length posts;
             posts' = filter (\<lambda>p. fp_id p \<noteq> postId) posts
         in if length posts' = originalLength
              then (Error 404 (js ''Post not found''), f)
            else (Success, writePosts posts')))"

section \<open>Reachable stores\<close>

text \<open>
  The states of the table that the four routes of server.js reach from the empty
  table, with \<open>ADMIN_PASSWORD\<close> fixed, whatever the requests and the environment.
\<close>

inductive reachable :: "jsstring option \<Rightarrow> db \<Rightarrow> bool" for ADMIN_PASSWORD where
  start: "reachable ADMIN_PASSWORD empty_db"
| listed: "reachable ADMIN_PASSWORD d \<Longrightarrow> reachable ADMIN_PASSWORD (snd (GET_api_posts e d))"
| created: "reachable ADMIN_PASSWORD d
     \<Longrightarrow> reachable ADMIN_PASSWORD (snd (POST_api_posts ADMIN_PASSWORD e r d))"
| updated: "reachable ADMIN_PASSWORD d
     \<Longrightarrow> reachable ADMIN_PASSWORD (snd (PUT_api_posts_id ADMIN_PASSWORD e r d))"
| deleted: "reachable ADMIN_PASSWORD d
     \<Longrightarrow> reachable ADMIN_PASSWORD (snd (DELETE_api_posts_id ADMIN_PASSWORD e r d))"

text \<open>The same for posts.json, which is missing or empty at first.\<close>

inductive reachable_json :: "jsstring option \<Rightarrow> posts_file \<Rightarrow> bool" for ADMIN_PASSWORD where
  no_file: "reachable_json ADMIN_PASSWORD NoFile"
| empty_file: "reachable_json ADMIN_PASSWORD EmptyFile"
| listed_json: "reachable_json ADMIN_PASSWORD f
     \<Longrightarrow> reachable_json ADMIN_PASSWORD (snd (GET_api_posts_json f))"
| created_json: "reachable_json ADMIN_PASSWORD f
     \<Longrightarrow> reachable_json ADMIN_PASSWORD (snd (POST_api_posts_json ADMIN_PASSWORD e r f))"
| updated_json: "reachable_json ADMIN_PASSWORD f
     \<Longrightarrow> reachable_json ADMIN_PASSWORD (snd (PUT_api_posts_id_json ADMIN_PASSWORD e r f))"
| deleted_json: "reachable_json ADMIN_PASSWORD f
     \<Longrightarrow> reachable_json ADMIN_PASSWORD (snd (DELETE_api_posts_id_json ADMIN_PASSWORD r f))"

text \<open>
  What the handlers of server.js write: the row that a create request inserts, and a
  row after an update that stores the images \<open>imgs\<close>. A row they have written holds a
  list of strings in \<open>images\<close> and its first element, or the empty string, in
  \<open>image_url\<close>.
\<close>

definition created_row :: "env \<Rightarrow> req \<Rightarrow> db \<Rightarrow> row" where
  "created_row e r d =
     \<lparr>row_id = posts_id_seq d, row_title = or_empty (title r),
      row_category = Some (or_empty (category r)), row_content = or_empty (content r),
      row_images = JArr (map JStr (upload_urls r)),
      row_image_url = Some (first_or_empty (upload_urls r)),
      row_affiliate_link = Some (or_empty (affiliateLink r)),
      row_created_at = Some (db_now e), row_updated_at = None\<rparr>"

definition updated_row :: "env \<Rightarrow> req \<Rightarrow> jsstring list \<Rightarrow> row \<Rightarrow> row" where
  "updated_row e r imgs x =
     x\<lparr>row_title := or_empty (title r), row_category := Some (or_empty (category r)),
       row_content := or_empty (content r),
       row_affiliate_link := Some (or_empty (affiliateLink r)),
       row_images := JArr (map JStr imgs), row_image_url := Some (first_or_empty imgs),
       row_updated_at := Some (new_date e)\<rparr>"

definition written_row :: "row \<Rightarrow> bool" where
  "written_row r =
     (\<exists>xs. row_images r = JArr (map JStr xs) \<and> row_image_url r = Some (first_or_empty xs))"

text \<open>The post that an update request leaves in posts.json in place of \<open>x\<close>.\<close>

definition updated_fpost :: "env \<Rightarrow> req \<Rightarrow> fpost \<Rightarrow> fpost" where
  "updated_fpost e r x =
     (let existingImages = (case fp_images x of None \<Rightarrow> [] | Some xs \<Rightarrow> xs)
      in x\<lparr>fp_title := or_empty (title r),
            fp_category := category r,
            fp_content := or_empty (content r),
            fp_affiliateLink := affiliateLink r,
            fp_images := Some (case upload_urls r of
                                 [] \<Rightarrow> existingImages
                               | _ # _ \<Rightarrow> upload_urls r),
            fp_imageUrl := Some (case upload_urls r of
                                   [] \<Rightarrow>
                                     if \<not> falsy (fp_imageUrl x) then or_empty (fp_imageUrl x)
                                     else first_or_empty existingImages
                                 | u # _ \<Rightarrow> u),
            fp_updatedAt := Some (new_date e)\<rparr>)"

text \<open>
  The ids that successful create requests of server.js have been answered with, in
  the order of the requests, along a run of the routes from the empty table.
\<close>

fun assigned_id :: "post response \<Rightarrow> int list" where
  "assigned_id (SuccessPost p) = [post_id p]"
| "assigned_id _ = []"

inductive assigned_ids :: "jsstring option \<Rightarrow> int list \<Rightarrow> db \<Rightarrow> bool" for ADMIN_PASSWORD where
  none_yet: "assigned_ids ADMIN_PASSWORD [] empty_db"
| after_list: "assigned_ids ADMIN_PASSWORD ids d
     \<Longrightarrow> assigned_ids ADMIN_PASSWORD ids (snd (GET_api_posts e d))"
| after_create: "assigned_ids ADMIN_PASSWORD ids d
     \<Longrightarrow> assigned_ids ADMIN_PASSWORD
           (ids @ assigned_id (fst (POST_api_posts ADMIN_PASSWORD e r d)))
           (snd (POST_api_posts ADMIN_PASSWORD e r d))"
| after_update: "assigned_ids ADMIN_PASSWORD ids d
     \<Longrightarrow> assigned_ids ADMIN_PASSWORD ids (snd (PUT_api_posts_id ADMIN_PASSWORD e r d))"
| after_delete: "assigned_ids ADMIN_PASSWORD ids d
     \<Longrightarrow> assigned_ids ADMIN_PASSWORD ids (snd (DELETE_api_posts_id ADMIN_PASSWORD e r d))"

text \<open>
  \<open>imageUrl\<close> is the first of \<open>images\<close>, or the empty string when \<open>images\<close> is the
  empty list; \<open>images\<close> is a list.
\<close>

definition primary_is_first :: "post \<Rightarrow> bool" where
  "primary_is_first p =
     (case post_images p of
        JArr [] \<Rightarrow> post_imageUrl p = JStr []
      | JArr (v # _) \<Rightarrow> post_imageUrl p = v
      | _ \<Rightarrow> False)"

definition primary_is_first_json :: "fpost \<Rightarrow> bool" where
  "primary_is_first_json p =
     (case fp_images p of
        Some [] \<Rightarrow> fp_imageUrl p = Some []
      | Some (x # _) \<Rightarrow> fp_imageUrl p = Some x
      | None \<Rightarrow> False)"

section \<open>Concrete requests and stores\<close>

text \<open>The inputs at which the theorems below are instantiated.\<close>

definition a_secret :: "jsstring option" where
  "a_secret = Some (js ''open sesame'')"

definition an_env :: env where
  "an_env = \<lparr>date_now = 1700000000000, new_date = 1700000000001, db_now = 1700000000002,
             query1_ok = True, query2_ok = True\<rparr>"

definition a_row :: "int \<Rightarrow> int \<Rightarrow> row" where
  "a_row i t =
     \<lparr>row_id = i, row_title = js ''A'', row_category = Some [], row_content = js ''B'',
      row_images = JArr [], row_image_url = Some [], row_affiliate_link = Some [],
      row_created_at = Some t, row_updated_at = None\<rparr>"

definition a_db :: db where
  "a_db = \<lparr>posts = [a_row 1 1000, a_row 2 3000, a_row 3 2000], posts_id_seq = 4\<rparr>"

definition a_fpost :: "int \<Rightarrow> int \<Rightarrow> fpost" where
  "a_fpost i t =
     \<lparr>fp_id = i, fp_title = js ''A'', fp_category = Some [], fp_content = js ''B'',
      fp_images = Some [], fp_imageUrl = Some [], fp_affiliateLink = Some [],
      fp_date = t, fp_updatedAt = None\<rparr>"

definition a_file :: posts_file where
  "a_file = PostsJson [a_fpost 1000 1000, a_fpost 3000 3000, a_fpost 2000 2000]"

text \<open>The API form of \<open>a_row i t\<close>.\<close>

definition a_post :: "int \<Rightarrow> int \<Rightarrow> post" where
  "a_post i t =
     \<lparr>post_id = i, post_title = js ''A'', post_category = [], post_content = js ''B'',
      post_images = JArr [], post_imageUrl = JStr [], post_affiliateLink = [],
      post_date = Some t, post_updatedAt = None\<rparr>"

text \<open>A request that carries only the secret \<open>pw\<close> and the id \<open>i\<close>.\<close>

definition bare_req :: "jsstring option \<Rightarrow> int \<Rightarrow> req" where
  "bare_req pw i =
     \<lparr>params_id = i, adminPassword = pw, title = None, category = None,
      content = None, affiliateLink = None, files = None\<rparr>"

text \<open>The requests that the scenarios of the spec send: title \<open>A\<close>, content \<open>B\<close>.\<close>

definition a_req :: "jsstring option \<Rightarrow> int \<Rightarrow> jsstring list \<Rightarrow> req" where
  "a_req pw i names =
     \<lparr>params_id = i, adminPassword = pw, title = Some (js ''A''), category = None,
      content = Some (js ''B''), affiliateLink = None, files = Some names\<rparr>"

text \<open>
  The scenario of the spec with two uploaded images, on the empty table and on the
  missing file.
\<close>

definition two_images :: "jsstring list" where
  "two_images = [js ''images-1700000000000-1.png'', js ''images-1700000000000-2.png'']"

definition db_two_images :: db where
  "db_two_images = snd (POST_api_posts a_secret an_env (a_req a_secret 0 two_images) empty_db)"

definition file_two_images :: posts_file where
  "file_two_images = snd (POST_api_posts_json a_secret an_env (a_req a_secret 0 two_images) NoFile)"

definition post_two_images :: post where
  "post_two_images =
     \<lparr>post_id = 1, post_title = js ''A'', post_category = [], post_content = js ''B'',
      post_images = JArr [JStr (js ''/uploads/images-1700000000000-1.png''),
                          JStr (js ''/uploads/images-1700000000000-2.png'')],
      post_imageUrl = JStr (js ''/uploads/images-1700000000000-1.png''),
      post_affiliateLink = [], post_date = Some 1700000000002, post_updatedAt = None\<rparr>"

definition fpost_two_images :: fpost where
  "fpost_two_images =
     \<lparr>fp_id = 1700000000000, fp_title = js ''A'', fp_category = Some [],
      fp_content = js ''B'',
      fp_images = Some [js ''/uploads/images-1700000000000-1.png'',
                        js ''/uploads/images-1700000000000-2.png''],
      fp_imageUrl = Some (js ''/uploads/images-1700000000000-1.png''),
      fp_affiliateLink = Some [], fp_date = 1700000000001, fp_updatedAt = None\<rparr>"

section \<open>Properties\<close>

subsection \<open>Lists\<close>

lemma length_filter_same: "(length (filter P xs) = length xs) = (\<forall>x \<in> set xs. P x)"
proof (induction xs)
  case Nil
  show ?case by simp
next
  case (Cons x xs)
  have "length (filter P xs) \<le> length xs" by simp
  then have "length (filter P xs) \<noteq> Suc (length xs)" by arith
  with Cons show ?case by auto
qed

lemma set_insert_by: "set (insert_by le x xs) = insert x (set xs)"
  by (induction xs) auto

lemma mset_insert_by: "mset (insert_by le x xs) = add_mset x (mset xs)"
  by (induction xs) auto

lemma mset_sort_by: "mset (sort_by le xs) = mset xs"
  by (induction xs) (simp_all add: mset_insert_by)

lemma sorted_insert_by:
  assumes total: "\<And>x y. le x y \<or> le y x"
    and trans: "\<And>x y z. le x y \<Longrightarrow> le y z \<Longrightarrow> le x z"
    and sorted: "sorted_wrt le xs"
  shows "sorted_wrt le (insert_by le x xs)"
  using sorted
proof (induction xs)
  case Nil
  show ?case by simp
next
  case (Cons y ys)
  show ?case
  proof (cases "le x y")
    case True
    from Cons.prems have "\<forall>z \<in> set ys. le y z" by simp
    with True have "\<forall>z \<in> set ys. le x z" using trans by blast
    with True Cons.prems show ?thesis by simp
  next
    case False
    with total have "le y x" by blast
    moreover from Cons.prems have "\<forall>z \<in> set ys. le y z" by simp
    moreover from Cons have "sorted_wrt le (insert_by le x ys)" by simp
    ultimately show ?thesis using False by (simp add: set_insert_by)
  qed
qed

lemma sorted_sort_by:
  assumes "\<And>x y. le x y \<or> le y x"
    and "\<And>x y z. le x y \<Longrightarrow> le y z \<Longrightarrow> le x z"
  shows "sorted_wrt le (sort_by le xs)"
proof (induction xs)
  case Nil
  show ?case by simp
next
  case (Cons x xs)
  then show ?case using sorted_insert_by [of le, OF assms] by simp
qed

lemma set_sort_by: "set (sort_by le xs) = set xs"
  by (induction xs) (simp_all add: set_insert_by)

lemma created_desc_total: "created_desc r s \<or> created_desc s r"
  by (auto simp: created_desc_def split: option.splits)

lemma created_desc_trans: "created_desc r s \<Longrightarrow> created_desc s t \<Longrightarrow> created_desc r t"
  by (auto simp: created_desc_def split: option.splits)

lemma those_Some_map: "those xs = Some ys \<Longrightarrow> xs = map Some ys"
proof (induction xs arbitrary: ys)
  case Nil
  then show ?case by simp
next
  case (Cons x xs)
  from Cons.prems obtain y zs where x: "x = Some y" and zs: "those xs = Some zs" and ys: "ys = y # zs"
    by (auto split: option.splits)
  from Cons.IH [OF zs] x ys show ?case by simp
qed

lemma mapDbPost_date: "mapDbPost r = Some p \<Longrightarrow> post_date p = row_created_at r"
  by (auto simp: mapDbPost_def Let_def split: option.splits)

lemma mapDbPost_id: "mapDbPost r = Some p \<Longrightarrow> post_id p = row_id r"
  by (auto simp: mapDbPost_def Let_def split: option.splits)

subsection \<open>JSON text of a list of strings\<close>

text \<open>
  \<open>JSON.parse\<close> reads back the list of strings that \<open>JSON.stringify\<close> wrote, whatever
  code units the strings hold.
\<close>

lemma unat_hexdigit:
  assumes "n < 16"
  shows "unat (hexdigit n) = (if n < 10 then 48 + n else 87 + n)"
proof -
  have small: "unat (of_nat n :: jschar) = n"
    using assms by (simp add: unat_of_nat)
  show ?thesis
    using assms small by (simp add: hexdigit_def unat_word_ariths)
qed

lemma hexval_hexdigit: "n < 16 \<Longrightarrow> hexval (hexdigit n) = Some n"
  using unat_hexdigit [of n]
  by (auto simp: hexval_def word_le_nat_alt split: if_splits)

lemma hex_digits_sum:
  fixes n :: nat
  shows "n div 4096 * 4096 + n div 256 mod 16 * 256 + n div 16 mod 16 * 16 + n mod 16 = n"
proof -
  define q1 where "q1 = n div 16"
  define q2 where "q2 = q1 div 16"
  define q3 where "q3 = q2 div 16"
  have a: "n = q1 * 16 + n mod 16" by (simp add: q1_def)
  have b: "q1 = q2 * 16 + q1 mod 16" by (simp add: q2_def)
  have c: "q2 = q3 * 16 + q2 mod 16" by (simp add: q3_def)
  have d: "n div 256 = q2" by (simp add: q2_def q1_def div_mult2_eq [symmetric])
  have e: "n div 4096 = q3" by (simp add: q3_def q2_def q1_def div_mult2_eq [symmetric])
  have "q3 * 4096 + q2 mod 16 * 256 + q1 mod 16 * 16 + n mod 16 = n"
    using a b c by linarith
  then show ?thesis by (simp add: d e q1_def [symmetric])
qed

lemma hex4_UnicodeEscape:
  "hex4 (hexdigit (unat c div 4096)) (hexdigit (unat c div 256 mod 16))
        (hexdigit (unat c div 16 mod 16)) (hexdigit (unat c mod 16)) = Some c"
proof -
  have "unat c < 65536" using unsigned_less [of c] by simp
  then have d3: "unat c div 4096 < 16" by simp
  show ?thesis
    using d3 by (simp add: hex4_def hexval_hexdigit hex_digits_sum)
qed

lemma parse_chars_quote_unit:
  "parse_chars (quote_unit c @ rest) =
     (case parse_chars rest of None \<Rightarrow> None | Some (s, r) \<Rightarrow> Some (c # s, r))"
  by (auto simp: quote_unit_def unescape_def UnicodeEscape_def hex4_UnicodeEscape)


lemma surrogate_is_plain:
  assumes "is_leading_surrogate c \<or> is_trailing_surrogate c"
  shows "c \<noteq> 0x22" and "c \<noteq> 0x5C" and "\<not> c < 0x20"
  using assms
  by (auto simp: is_leading_surrogate_def is_trailing_surrogate_def word_le_nat_alt
      word_less_nat_alt)

lemma parse_chars_plain:
  "c \<noteq> 0x22 \<Longrightarrow> c \<noteq> 0x5C \<Longrightarrow> \<not> c < 0x20 \<Longrightarrow>
     parse_chars (c # cs) =
       (case parse_chars cs of None \<Rightarrow> None | Some (s, r) \<Rightarrow> Some (c # s, r))"
  by simp

lemma parse_chars_quote_units: "parse_chars (quote_units s @ 0x22 # rest) = Some (s, rest)"
proof (induction s rule: quote_units.induct)
  case 1
  show ?case by simp
next
  case (2 c)
  show ?case by (simp add: parse_chars_quote_unit)
next
  case (3 c d cs)
  show ?case
  proof (cases "is_leading_surrogate c \<and> is_trailing_surrogate d")
    case True
    then have eq: "quote_units (c # d # cs) @ 0x22 # rest = c # d # quote_units cs @ 0x22 # rest"
      by simp
    from True have ih: "parse_chars (quote_units cs @ 0x22 # rest) = Some (cs, rest)"
      by (rule "3.IH"(1))
    from True have c: "c \<noteq> 0x22" "c \<noteq> 0x5C" "\<not> c < 0x20"
      by (simp_all add: surrogate_is_plain)
    from True have d: "d \<noteq> 0x22" "d \<noteq> 0x5C" "\<not> d < 0x20"
      by (simp_all add: surrogate_is_plain)
    show ?thesis
      unfolding eq by (simp only: parse_chars_plain [OF c] parse_chars_plain [OF d] ih) simp
  next
    case False
    then have eq: "quote_units (c # d # cs) @ 0x22 # rest
        = quote_unit c @ (quote_units (d # cs) @ 0x22 # rest)"
      by auto
    from False have ih: "parse_chars (quote_units (d # cs) @ 0x22 # rest) = Some (d # cs, rest)"
      by (rule "3.IH"(2))
    show ?thesis
      unfolding eq by (simp only: parse_chars_quote_unit ih) simp
  qed
qed

lemma parse_value_string:
  "parse_value (Suc n) (QuoteJSONString s @ rest) = Some (JStr s, rest)"
  by (simp add: QuoteJSONString_def parse_chars_quote_units)

lemma commas_quoted_Cons:
  "\<exists>tl. commas (map QuoteJSONString (y # ys)) = 0x22 # tl"
  by (cases ys) (simp_all add: QuoteJSONString_def)

lemma skip_ws_commas_quoted:
  "skip_ws (commas (map QuoteJSONString (y # ys)) @ rest)
     = commas (map QuoteJSONString (y # ys)) @ rest"
proof -
  from commas_quoted_Cons obtain tl where "commas (map QuoteJSONString (y # ys)) = 0x22 # tl"
    by blast
  then show ?thesis by (simp add: skip_ws_def is_json_ws_def)
qed

lemma skip_ws_bracket: "skip_ws (0x5D # rest) = 0x5D # rest"
  by (simp add: skip_ws_def is_json_ws_def)

lemma skip_ws_comma: "skip_ws (0x2C # rest) = 0x2C # rest"
  by (simp add: skip_ws_def is_json_ws_def)

lemma parse_elements_last:
  "parse_elements (Suc (Suc n)) (QuoteJSONString x @ 0x5D # rest) = Some ([JStr x], rest)"
  by (subst parse_elements.simps(2))
    (simp add: parse_value_string skip_ws_bracket del: parse_value.simps parse_elements.simps)

lemma parse_elements_step:
  assumes ws: "skip_ws r = r" and more: "parse_elements n r = Some (vs, rest)"
  shows "parse_elements (Suc n) (QuoteJSONString x @ 0x2C # r) = Some (JStr x # vs, rest)"
proof -
  from more obtain m where "n = Suc m" by (cases n) auto
  then have pv: "parse_value n (QuoteJSONString x @ 0x2C # r) = Some (JStr x, 0x2C # r)"
    by (simp only: parse_value_string)
  show ?thesis
    by (subst parse_elements.simps(2))
      (simp add: pv skip_ws_comma ws more del: parse_value.simps parse_elements.simps)
qed

lemma parse_elements_strings:
  "xs \<noteq> [] \<Longrightarrow> length xs < n \<Longrightarrow>
     parse_elements n (commas (map QuoteJSONString xs) @ 0x5D # rest) = Some (map JStr xs, rest)"
proof (induction xs arbitrary: n)
  case Nil
  then show ?case by simp
next
  case (Cons x xs)
  from Cons.prems obtain k where n: "n = Suc (Suc k)" and k: "length xs \<le> k"
    by (cases n; cases "n - 1") auto
  show ?case
  proof (cases xs)
    case Nil
    with n show ?thesis by (simp only: list.map commas.simps parse_elements_last)
  next
    case (Cons y ys)
    let ?r = "commas (map QuoteJSONString (y # ys)) @ 0x5D # rest"
    have ih: "parse_elements (Suc k) ?r = Some (map JStr (y # ys), rest)"
      using Cons.IH [of "Suc k"] k Cons by simp
    have "parse_elements (Suc (Suc k)) (QuoteJSONString x @ 0x2C # ?r)
        = Some (JStr x # map JStr (y # ys), rest)"
      using skip_ws_commas_quoted ih by (rule parse_elements_step)
    with n Cons show ?thesis by simp
  qed
qed

lemma stringify_elements_strings: "stringify_elements (map JStr xs) = map QuoteJSONString xs"
  by (induction xs) simp_all

lemma length_commas_quoted: "length xs \<le> length (commas (map QuoteJSONString xs))"
proof (induction xs rule: induct_list012)
  case 1
  show ?case by simp
next
  case (2 x)
  show ?case by (simp add: QuoteJSONString_def)
next
  case (3 x y zs)
  then show ?case by (simp add: QuoteJSONString_def)
qed

lemma JSON_roundtrip_strings:
  "JSON_parse (stringify_value (JArr (map JStr xs))) = Some (JArr (map JStr xs))"
proof (cases xs)
  case Nil
  then show ?thesis
    by (simp add: JSON_parse_def skip_ws_def is_json_ws_def)
next
  case (Cons y ys)
  let ?body = "commas (map QuoteJSONString (y # ys))"
  from commas_quoted_Cons obtain tl where tl: "?body = 0x22 # tl" by blast
  have fuel: "length (y # ys) < Suc (length (?body @ [0x5D]))"
    using length_commas_quoted [of "y # ys"] by simp
  have elems: "parse_elements (Suc (length (?body @ [0x5D]))) (?body @ 0x5D # []) = Some (map JStr (y # ys), [])"
    by (rule parse_elements_strings [OF _ fuel]) simp
  have "parse_value (Suc (Suc (length (?body @ [0x5D])))) (0x5B # ?body @ [0x5D])
      = Some (JArr (map JStr (y # ys)), [])"
    unfolding parse_value.simps(2) [of "Suc (length (?body @ [0x5D]))"]
    using elems tl by (simp add: skip_ws_def is_json_ws_def del: parse_elements.simps)
  then show ?thesis
    using Cons
    by (simp add: JSON_parse_def stringify_elements_strings skip_ws_def is_json_ws_def
        del: parse_value.simps parse_elements.simps)
qed

subsection \<open>The bound of the JSON parser\<close>

text \<open>
  A successful run of the parser reads at least one character and gives the same
  result under every bound that is at least the number of characters read; hence
  \<open>JSON_parse\<close> fails only on a text that no bound parses.
\<close>

lemma length_skip_ws: "length (skip_ws cs) \<le> length cs"
  by (simp add: skip_ws_def length_dropWhile_le)

lemma parse_chars_shorter: "parse_chars cs = Some (s, r) \<Longrightarrow> length r < length cs"
proof (induction cs arbitrary: s r rule: parse_chars.induct)
  case 1
  then show ?case by simp
next
  case (2 c cs)
  show ?case
  proof (cases "c = 0x22")
    case True
    with "2.prems" show ?thesis by simp
  next
    case quote: False
    show ?thesis
    proof (cases "c = 0x5C")
      case False
      with quote "2.prems" have ctl: "\<not> c < 0x20"
        by (auto split: if_splits)
      with quote False "2.prems" obtain s' where "parse_chars cs = Some (s', r)"
        by (auto split: option.splits)
      with "2.IH"(3) [OF quote False ctl] show ?thesis by fastforce
    next
      case True
      with quote "2.prems" obtain e es where cs: "cs = e # es"
        by (cases cs) auto
      show ?thesis
      proof (cases "e = 0x75")
        case False
        with True quote cs "2.prems" obtain u s' where u: "unescape e = Some u"
          and "parse_chars es = Some (s', r)"
          by (auto split: option.splits)
        with "2.IH"(2) [OF quote True cs False u] cs show ?thesis by fastforce
      next
        case u: True
        with True quote cs "2.prems" obtain h3 h2 h1 h0 rest u' s'
          where es: "es = h3 # h2 # h1 # h0 # rest" and h: "hex4 h3 h2 h1 h0 = Some u'"
            and "parse_chars rest = Some (s', r)"
          by (auto split: list.splits option.splits)
        with "2.IH"(1) [OF quote True cs u es] cs show ?thesis by fastforce
      qed
    qed
  qed
qed

lemma digits1_shorter: "digits1 cs = Some (ds, r) \<Longrightarrow> length r < length cs"
proof -
  assume a: "digits1 cs = Some (ds, r)"
  then have "takeWhile is_digit cs \<noteq> []" and r: "r = dropWhile is_digit cs"
    by (auto simp: digits1_def Let_def split: if_splits)
  then obtain c cs' where "cs = c # cs'" and "is_digit c"
    by (cases cs) (auto split: if_splits)
  with r have "length r \<le> length cs'" by (simp add: length_dropWhile_le)
  with \<open>cs = c # cs'\<close> show ?thesis by simp
qed

lemma digits1_not_longer: "digits1 cs = Some (ds, r) \<Longrightarrow> length r \<le> length cs"
  using digits1_shorter by fastforce

lemma parse_int_part_shorter: "parse_int_part cs = Some (ds, r) \<Longrightarrow> length r < length cs"
  by (cases cs) (auto simp: parse_int_part_def dest: digits1_shorter split: if_splits)

lemma parse_frac_not_longer: "parse_frac cs = Some (ds, r) \<Longrightarrow> length r \<le> length cs"
  by (cases cs)
    (auto simp: parse_frac_def dest!: digits1_not_longer split: if_splits option.splits)

lemma parse_exp_not_longer: "parse_exp cs = Some (ds, r) \<Longrightarrow> length r \<le> length cs"
  by (cases cs)
    (auto simp: parse_exp_def dest!: digits1_not_longer split: if_splits option.splits list.splits)

lemma parse_number_shorter: "parse_number cs = Some (nm, r) \<Longrightarrow> length r < length cs"
proof -
  assume a: "parse_number cs = Some (nm, r)"
  define r0 where "r0 = (case cs of [] \<Rightarrow> cs | c # t \<Rightarrow> if c = 0x2D then t else cs)"
  have r0: "length r0 \<le> length cs" by (cases cs) (simp_all add: r0_def)
  from a obtain ip r1 fp r2 ep where "parse_int_part r0 = Some (ip, r1)"
    and "parse_frac r1 = Some (fp, r2)" and "parse_exp r2 = Some (ep, r)"
    by (cases cs)
      (auto simp: parse_number_def r0_def Let_def split: option.splits if_splits)
  then have "length r1 < length r0" and "length r2 \<le> length r1" and "length r \<le> length r2"
    by (auto dest: parse_int_part_shorter parse_frac_not_longer parse_exp_not_longer)
  with r0 show ?thesis by simp
qed

lemma parse_literal_shorter: "parse_literal cs = Some (v, r) \<Longrightarrow> length r < length cs"
  by (auto simp: parse_literal_def js_def prefix_def split: if_splits)

lemma settledI:
  assumes "length r < length cs"
    and "\<And>n. length cs - length r \<le> Suc n \<Longrightarrow> parse (Suc n) cs = Some (v, r)"
  shows "settled parse cs v r"
  unfolding settled_def
proof (intro conjI allI impI)
  show "length r < length cs" by fact
next
  fix n assume n: "length cs - length r \<le> n"
  with assms(1) obtain k where "n = Suc k" by (cases n) auto
  with n assms(2) show "parse n cs = Some (v, r)" by simp
qed

lemma settledD:
  "settled parse cs v r \<Longrightarrow> length cs - length r \<le> n \<Longrightarrow> parse n cs = Some (v, r)"
  by (simp add: settled_def)

lemma settled_shorter: "settled parse cs v r \<Longrightarrow> length r < length cs"
  by (simp add: settled_def)

lemma value_step:
  assumes E: "\<And>cs vs r. parse_elements m cs = Some (vs, r) \<Longrightarrow> settled parse_elements cs vs r"
    and M: "\<And>cs ms r. parse_members m cs = Some (ms, r) \<Longrightarrow> settled parse_members cs ms r"
    and run: "parse_value (Suc m) cs = Some (v, r)"
  shows "settled parse_value cs v r"
proof -
  from run obtain c r0 where cs: "cs = c # r0" by (cases cs) auto
  show ?thesis
  proof (cases "c = 0x22")
    case True
    with run cs obtain s where s: "parse_chars r0 = Some (s, r)" and v: "v = JStr s"
      by (auto split: option.splits)
    from parse_chars_shorter [OF s] cs have "length r < length cs" by simp
    then show ?thesis
      using True cs s v by (intro settledI) simp_all
  next
    case not_string: False
    show ?thesis
    proof (cases "c = 0x5B")
      case True
      with run cs obtain c' r' where ws: "skip_ws r0 = c' # r'"
        by (cases "skip_ws r0") auto
      with length_skip_ws [of r0] have len: "Suc (length r') \<le> length r0" by simp
      show ?thesis
      proof (cases "c' = 0x5D")
        case close: True
        with True run cs ws have "v = JArr []" and "r = r'" by auto
        with len cs show ?thesis
          using True close ws by (intro settledI) simp_all
      next
        case False
        with True run cs ws obtain vs where e: "parse_elements m (c' # r') = Some (vs, r)"
          and v: "v = JArr vs"
          by (auto split: option.splits)
        from E [OF e] have st: "settled parse_elements (c' # r') vs r" .
        from settled_shorter [OF st] len cs have shorter: "length r < length cs" by simp
        show ?thesis
        proof (rule settledI [OF shorter])
          fix n assume "length cs - length r \<le> Suc n"
          with cs len have "length (c' # r') - length r \<le> n" by simp
          from settledD [OF st this] True False ws v cs
          show "parse_value (Suc n) cs = Some (v, r)" by simp
        qed
      qed
    next
      case not_array: False
      show ?thesis
      proof (cases "c = 0x7B")
        case True
        with run cs obtain c' r' where ws: "skip_ws r0 = c' # r'"
          by (cases "skip_ws r0") auto
        with length_skip_ws [of r0] have len: "Suc (length r') \<le> length r0" by simp
        show ?thesis
        proof (cases "c' = 0x7D")
          case close: True
          with True run cs ws have "v = JObj []" and "r = r'" by auto
          with len cs show ?thesis
            using True close ws by (intro settledI) simp_all
        next
          case False
          with True run cs ws obtain ms where e: "parse_members m (c' # r') = Some (ms, r)"
            and v: "v = JObj ms"
            by (auto split: option.splits)
          from M [OF e] have st: "settled parse_members (c' # r') ms r" .
          from settled_shorter [OF st] len cs have shorter: "length r < length cs" by simp
          show ?thesis
          proof (rule settledI [OF shorter])
            fix n assume "length cs - length r \<le> Suc n"
            with cs len have "length (c' # r') - length r \<le> n" by simp
            from settledD [OF st this] True False ws v cs
            show "parse_value (Suc n) cs = Some (v, r)" by simp
          qed
        qed
      next
        case not_object: False
        show ?thesis
        proof (cases "c = 0x2D \<or> is_digit c")
          case True
          with not_string not_array not_object run cs obtain nm
            where nm: "parse_number cs = Some (nm, r)" and v: "v = JNum nm"
            by (auto split: option.splits)
          from parse_number_shorter [OF nm] show ?thesis
            using True not_string not_array not_object nm v cs
            by (intro settledI) auto
        next
          case False
          with not_string not_array not_object run cs
          have lit: "parse_literal cs = Some (v, r)" by auto
          from parse_literal_shorter [OF lit] show ?thesis
            using False not_string not_array not_object lit cs
            by (intro settledI) auto
        qed
      qed
    qed
  qed
qed


lemma elements_step:
  assumes V: "\<And>cs v r. parse_value m cs = Some (v, r) \<Longrightarrow> settled parse_value cs v r"
    and E: "\<And>cs vs r. parse_elements m cs = Some (vs, r) \<Longrightarrow> settled parse_elements cs vs r"
    and run: "parse_elements (Suc m) cs = Some (vs, r)"
  shows "settled parse_elements cs vs r"
proof -
  from run obtain v r1 where pv: "parse_value m cs = Some (v, r1)"
    by (auto split: option.splits)
  from V [OF pv] have stv: "settled parse_value cs v r1" .
  from run pv obtain c r' where ws: "skip_ws r1 = c # r'"
    by (cases "skip_ws r1") auto
  with length_skip_ws [of r1] settled_shorter [OF stv]
  have len: "Suc (length r') \<le> length r1" "length r1 < length cs" by simp_all
  show ?thesis
  proof (cases "c = 0x5D")
    case True
    with run pv ws have res: "vs = [v]" "r = r'" by auto
    from len res have shorter: "length r < length cs" by simp
    show ?thesis
    proof (rule settledI [OF shorter])
      fix n assume "length cs - length r \<le> Suc n"
      with len res have "length cs - length r1 \<le> n" by simp
      from settledD [OF stv this] True ws res
      show "parse_elements (Suc n) cs = Some (vs, r)" by simp
    qed
  next
    case False
    with run pv ws have comma: "c = 0x2C" by (auto split: if_splits)
    with False run pv ws obtain vs' where pe: "parse_elements m (skip_ws r') = Some (vs', r)"
      and res: "vs = v # vs'"
      by (auto split: option.splits)
    from E [OF pe] have ste: "settled parse_elements (skip_ws r') vs' r" .
    from settled_shorter [OF ste] length_skip_ws [of r']
    have len': "length r < length (skip_ws r')" "length (skip_ws r') \<le> length r'" by simp_all
    with len have shorter: "length r < length cs" by simp
    show ?thesis
    proof (rule settledI [OF shorter])
      fix n assume n: "length cs - length r \<le> Suc n"
      with len len' have "length cs - length r1 \<le> n" by simp
      from settledD [OF stv this] have v: "parse_value n cs = Some (v, r1)" .
      from n len len' have "length (skip_ws r') - length r \<le> n" by simp
      from settledD [OF ste this] v False comma ws res
      show "parse_elements (Suc n) cs = Some (vs, r)" by simp
    qed
  qed
qed

lemma members_step:
  assumes V: "\<And>cs v r. parse_value m cs = Some (v, r) \<Longrightarrow> settled parse_value cs v r"
    and M: "\<And>cs ms r. parse_members m cs = Some (ms, r) \<Longrightarrow> settled parse_members cs ms r"
    and run: "parse_members (Suc m) cs = Some (ms, r)"
  shows "settled parse_members cs ms r"
proof -
  from run obtain q r0 where cs: "cs = q # r0" by (cases cs) auto
  with run have q: "q = 0x22" by (auto split: if_splits)
  with run cs obtain k r1 where key: "parse_chars r0 = Some (k, r1)"
    by (auto split: option.splits)
  from run cs q key obtain colon r2 where ws1: "skip_ws r1 = colon # r2"
    by (cases "skip_ws r1") auto
  with run cs q key have colon: "colon = 0x3A" by (auto split: if_splits)
  with run cs q key ws1 obtain v r3 where pv: "parse_value m (skip_ws r2) = Some (v, r3)"
    by (auto split: option.splits)
  from V [OF pv] have stv: "settled parse_value (skip_ws r2) v r3" .
  from run cs q key ws1 colon pv obtain c r4 where ws3: "skip_ws r3 = c # r4"
    by (cases "skip_ws r3") auto
  have len: "length r1 < length r0" "Suc (length r2) \<le> length r1"
      "length (skip_ws r2) \<le> length r2" "length r3 < length (skip_ws r2)"
      "Suc (length r4) \<le> length r3"
    using parse_chars_shorter [OF key] length_skip_ws [of r1] ws1 length_skip_ws [of r2]
      settled_shorter [OF stv] length_skip_ws [of r3] ws3
    by simp_all
  show ?thesis
  proof (cases "c = 0x7D")
    case True
    with run cs q key ws1 colon pv ws3 have res: "ms = [(k, v)]" "r = r4" by auto
    from len res cs have shorter: "length r < length cs" by simp
    show ?thesis
    proof (rule settledI [OF shorter])
      fix n assume "length cs - length r \<le> Suc n"
      with len res cs have "length (skip_ws r2) - length r3 \<le> n" by simp
      from settledD [OF stv this] True cs q key ws1 colon ws3 res
      show "parse_members (Suc n) cs = Some (ms, r)" by simp
    qed
  next
    case False
    with run cs q key ws1 colon pv ws3 have comma: "c = 0x2C" by (auto split: if_splits)
    with False run cs q key ws1 colon pv ws3 obtain ms'
      where pm: "parse_members m (skip_ws r4) = Some (ms', r)" and res: "ms = (k, v) # ms'"
      by (auto split: option.splits)
    from M [OF pm] have stm: "settled parse_members (skip_ws r4) ms' r" .
    from settled_shorter [OF stm] length_skip_ws [of r4]
    have len': "length r < length (skip_ws r4)" "length (skip_ws r4) \<le> length r4" by simp_all
    with len cs have shorter: "length r < length cs" by simp
    show ?thesis
    proof (rule settledI [OF shorter])
      fix n assume n: "length cs - length r \<le> Suc n"
      with len len' cs have "length (skip_ws r2) - length r3 \<le> n" by simp
      from settledD [OF stv this] have v: "parse_value n (skip_ws r2) = Some (v, r3)" .
      from n len len' cs have "length (skip_ws r4) - length r \<le> n" by simp
      from settledD [OF stm this] v False comma cs q key ws1 colon ws3 res
      show "parse_members (Suc n) cs = Some (ms, r)" by simp
    qed
  qed
qed

lemma parse_settled:
  "(\<forall>cs v r. parse_value m cs = Some (v, r) \<longrightarrow> settled parse_value cs v r)
   \<and> (\<forall>cs vs r. parse_elements m cs = Some (vs, r) \<longrightarrow> settled parse_elements cs vs r)
   \<and> (\<forall>cs ms r. parse_members m cs = Some (ms, r) \<longrightarrow> settled parse_members cs ms r)"
proof (induction m)
  case 0
  show ?case by simp
next
  case (Suc m)
  then have V: "\<And>cs v r. parse_value m cs = Some (v, r) \<Longrightarrow> settled parse_value cs v r"
    and E: "\<And>cs vs r. parse_elements m cs = Some (vs, r) \<Longrightarrow> settled parse_elements cs vs r"
    and M: "\<And>cs ms r. parse_members m cs = Some (ms, r) \<Longrightarrow> settled parse_members cs ms r"
    by blast+
  show ?case
  proof (intro conjI allI impI)
    fix cs v r assume "parse_value (Suc m) cs = Some (v, r)"
    with E M show "settled parse_value cs v r" by (rule value_step)
  next
    fix cs vs r assume "parse_elements (Suc m) cs = Some (vs, r)"
    with V E show "settled parse_elements cs vs r" by (rule elements_step)
  next
    fix cs ms r assume "parse_members (Suc m) cs = Some (ms, r)"
    with V M show "settled parse_members cs ms r" by (rule members_step)
  qed
qed

lemma JSON_parse_any_fuel:
  assumes "parse_value m (skip_ws jtext) = Some (v, r)" and "skip_ws r = []"
  shows "JSON_parse jtext = Some v"
proof -
  from assms(1) parse_settled [of m] have st: "settled parse_value (skip_ws jtext) v r"
    by blast
  have "length (skip_ws jtext) - length r \<le> Suc (length jtext)"
    using length_skip_ws [of jtext] by simp
  from settledD [OF st this] assms(2) show ?thesis
    by (simp add: JSON_parse_def del: parse_value.simps)
qed

lemma JSON_parse_None:
  "(JSON_parse jtext = None)
     = (\<forall>m v r. parse_value m (skip_ws jtext) = Some (v, r) \<longrightarrow> skip_ws r \<noteq> [])"
proof
  assume none: "JSON_parse jtext = None"
  show "\<forall>m v r. parse_value m (skip_ws jtext) = Some (v, r) \<longrightarrow> skip_ws r \<noteq> []"
  proof (intro allI impI notI)
    fix m v r
    assume "parse_value m (skip_ws jtext) = Some (v, r)" and "skip_ws r = []"
    then have "JSON_parse jtext = Some v" by (rule JSON_parse_any_fuel)
    with none show False by simp
  qed
next
  assume "\<forall>m v r. parse_value m (skip_ws jtext) = Some (v, r) \<longrightarrow> skip_ws r \<noteq> []"
  then show "JSON_parse jtext = None"
    by (auto simp: JSON_parse_def simp del: parse_value.simps split: option.splits)
qed

subsection \<open>Authorization and validation\<close>

text \<open>
  C10. Authorization is checked before the fields are validated: a create or update
  request whose secret differs from the configured one and whose title or content is
  missing or empty is answered 401, not 400, and the stored posts are untouched, in
  both servers.
\<close>

theorem auth_before_validation:
  assumes "adminPassword r \<noteq> ADMIN_PASSWORD" and "falsy (title r) \<or> falsy (content r)"
  shows "POST_api_posts ADMIN_PASSWORD e r d = (Error 401 (js ''Unauthorized''), d)
       \<and> PUT_api_posts_id ADMIN_PASSWORD e r d = (Error 401 (js ''Unauthorized''), d)
       \<and> POST_api_posts_json ADMIN_PASSWORD e r f = (Error 401 (js ''Unauthorized''), f)
       \<and> PUT_api_posts_id_json ADMIN_PASSWORD e r f = (Error 401 (js ''Unauthorized''), f)"
  using assms
  by (simp add: POST_api_posts_def PUT_api_posts_id_def POST_api_posts_json_def
      PUT_api_posts_id_json_def)

theorem auth_before_validation_witness:
  "adminPassword (bare_req (Some (js ''guess'')) 1) \<noteq> a_secret
   \<and> (falsy (title (bare_req (Some (js ''guess'')) 1))
        \<or> falsy (content (bare_req (Some (js ''guess'')) 1)))
   \<and> POST_api_posts a_secret an_env (bare_req (Some (js ''guess'')) 1) a_db
       = (Error 401 (js ''Unauthorized''), a_db)
   \<and> PUT_api_posts_id a_secret an_env (bare_req (Some (js ''guess'')) 1) a_db
       = (Error 401 (js ''Unauthorized''), a_db)
   \<and> POST_api_posts_json a_secret an_env (bare_req (Some (js ''guess'')) 1) a_file
       = (Error 401 (js ''Unauthorized''), a_file)
   \<and> PUT_api_posts_id_json a_secret an_env (bare_req (Some (js ''guess'')) 1) a_file
       = (Error 401 (js ''Unauthorized''), a_file)"
proof -
  have h1: "adminPassword (bare_req (Some (js ''guess'')) 1) \<noteq> a_secret"
    by (simp add: bare_req_def a_secret_def js_def)
  have h2: "falsy (title (bare_req (Some (js ''guess'')) 1))
        \<or> falsy (content (bare_req (Some (js ''guess'')) 1))"
    by (simp add: bare_req_def falsy_def)
  show ?thesis
    using h1 h2 auth_before_validation [OF h1 h2, of an_env a_db a_file] by simp
qed

text \<open>
  C9. A create or update request with the configured secret in which title or content
  is missing or empty is answered 400, and the stored posts are unchanged: nothing is
  inserted or updated, in both servers.
\<close>

theorem missing_fields_400:
  assumes "adminPassword r = ADMIN_PASSWORD" and "falsy (title r) \<or> falsy (content r)"
  shows "POST_api_posts ADMIN_PASSWORD e r d
           = (Error 400 (js ''Title and content are required''), d)
       \<and> PUT_api_posts_id ADMIN_PASSWORD e r d
           = (Error 400 (js ''Title and content are required''), d)
       \<and> POST_api_posts_json ADMIN_PASSWORD e r f
           = (Error 400 (js ''Title and content are required''), f)
       \<and> PUT_api_posts_id_json ADMIN_PASSWORD e r f
           = (Error 400 (js ''Title and content are required''), f)"
  using assms
  by (auto simp: POST_api_posts_def PUT_api_posts_id_def POST_api_posts_json_def
      PUT_api_posts_id_json_def)

theorem missing_fields_400_witness:
  "adminPassword ((a_req a_secret 1 []) \<lparr>title := Some []\<rparr>) = a_secret
   \<and> (falsy (title ((a_req a_secret 1 []) \<lparr>title := Some []\<rparr>))
        \<or> falsy (content ((a_req a_secret 1 []) \<lparr>title := Some []\<rparr>)))
   \<and> POST_api_posts a_secret an_env ((a_req a_secret 1 []) \<lparr>title := Some []\<rparr>) a_db
       = (Error 400 (js ''Title and content are required''), a_db)
   \<and> PUT_api_posts_id a_secret an_env ((a_req a_secret 1 []) \<lparr>title := Some []\<rparr>) a_db
       = (Error 400 (js ''Title and content are required''), a_db)
   \<and> POST_api_posts_json a_secret an_env ((a_req a_secret 1 []) \<lparr>title := Some []\<rparr>) a_file
       = (Error 400 (js ''Title and content are required''), a_file)
   \<and> PUT_api_posts_id_json a_secret an_env ((a_req a_secret 1 []) \<lparr>title := Some []\<rparr>) a_file
       = (Error 400 (js ''Title and content are required''), a_file)"
proof -
  let ?r = "(a_req a_secret 1 []) \<lparr>title := Some []\<rparr>"
  have h1: "adminPassword ?r = a_secret"
    by (simp add: a_req_def)
  have h2: "falsy (title ?r) \<or> falsy (content ?r)"
    by (simp add: a_req_def falsy_def)
  show ?thesis
    using h1 h2 missing_fields_400 [OF h1 h2, of an_env a_db a_file] by simp
qed

subsection \<open>Deleting\<close>

text \<open>
  C7. A delete request with the configured secret, while storage answers: if no stored
  post has the id, the response is 404 and the collection is unchanged; otherwise the
  posts with that id, and no others, are removed, and the response is
  \<open>{success: true}\<close> with status 200. This holds in both servers; for the file
  server it is stated of the posts that posts.json holds, and a missing or empty
  file, which holds none, is answered 404 and left as it is.
\<close>

theorem delete_exactly_that_id:
  assumes "adminPassword r = ADMIN_PASSWORD" and "query1_ok e"
  shows "(if \<exists>x \<in> set (posts d). row_id x = params_id r
          then DELETE_api_posts_id ADMIN_PASSWORD e r d
                 = (Success, d\<lparr>posts := filter (\<lambda>x. row_id x \<noteq> params_id r) (posts d)\<rparr>)
          else DELETE_api_posts_id ADMIN_PASSWORD e r d
                 = (Error 404 (js ''Post not found''), d))
       \<and> (if \<exists>p \<in> set stored. fp_id p = params_id r
          then DELETE_api_posts_id_json ADMIN_PASSWORD r (PostsJson stored)
                 = (Success, PostsJson (filter (\<lambda>p. fp_id p \<noteq> params_id r) stored))
          else DELETE_api_posts_id_json ADMIN_PASSWORD r (PostsJson stored)
                 = (Error 404 (js ''Post not found''), PostsJson stored))
       \<and> DELETE_api_posts_id_json ADMIN_PASSWORD r NoFile
            = (Error 404 (js ''Post not found''), NoFile)
       \<and> DELETE_api_posts_id_json ADMIN_PASSWORD r EmptyFile
            = (Error 404 (js ''Post not found''), EmptyFile)
       \<and> status (Success :: post response) = 200"
proof -
  let ?same = "filter (\<lambda>x. row_id x = params_id r) (posts d)"
  have pg_found: "DELETE_api_posts_id ADMIN_PASSWORD e r d
      = (Success, d\<lparr>posts := filter (\<lambda>x. row_id x \<noteq> params_id r) (posts d)\<rparr>)"
    if "\<exists>x \<in> set (posts d). row_id x = params_id r"
  proof -
    from that have "?same \<noteq> []" by (simp add: filter_empty_conv)
    then obtain x xs where "?same = x # xs" by (cases ?same) auto
    with assms show ?thesis
      by (simp add: DELETE_api_posts_id_def delete_post_def)
  qed
  have pg_missing: "DELETE_api_posts_id ADMIN_PASSWORD e r d
      = (Error 404 (js ''Post not found''), d)"
    if "\<not> (\<exists>x \<in> set (posts d). row_id x = params_id r)"
  proof -
    from that have none: "?same = []" by (simp add: filter_empty_conv)
    from that have "filter (\<lambda>x. row_id x \<noteq> params_id r) (posts d) = posts d"
      by (simp add: filter_id_conv)
    with none assms show ?thesis
      by (simp add: DELETE_api_posts_id_def delete_post_def)
  qed
  have len: "(length (filter (\<lambda>p. fp_id p \<noteq> params_id r) stored) = length stored)
      = (\<not> (\<exists>p \<in> set stored. fp_id p = params_id r))"
    by (simp add: length_filter_same)
  have on_file: "(if \<exists>p \<in> set stored. fp_id p = params_id r
          then DELETE_api_posts_id_json ADMIN_PASSWORD r (PostsJson stored)
                 = (Success, PostsJson (filter (\<lambda>p. fp_id p \<noteq> params_id r) stored))
          else DELETE_api_posts_id_json ADMIN_PASSWORD r (PostsJson stored)
                 = (Error 404 (js ''Post not found''), PostsJson stored))"
    using assms len by (simp add: DELETE_api_posts_id_json_def writePosts_def Let_def)
  have no_file: "DELETE_api_posts_id_json ADMIN_PASSWORD r NoFile
      = (Error 404 (js ''Post not found''), NoFile)"
    using assms by (simp add: DELETE_api_posts_id_json_def Let_def)
  have empty_file: "DELETE_api_posts_id_json ADMIN_PASSWORD r EmptyFile
      = (Error 404 (js ''Post not found''), EmptyFile)"
    using assms by (simp add: DELETE_api_posts_id_json_def Let_def)
  from pg_found pg_missing on_file no_file empty_file show ?thesis by simp
qed

theorem delete_exactly_that_id_witness:
  "adminPassword (bare_req a_secret 2) = a_secret \<and> query1_ok an_env
   \<and> DELETE_api_posts_id a_secret an_env (bare_req a_secret 2) a_db
       = (Success, \<lparr>posts = [a_row 1 1000, a_row 3 2000], posts_id_seq = 4\<rparr>)
   \<and> DELETE_api_posts_id_json a_secret (bare_req a_secret 2) a_file
       = (Error 404 (js ''Post not found''), a_file)
   \<and> adminPassword (bare_req a_secret 3000) = a_secret
   \<and> DELETE_api_posts_id a_secret an_env (bare_req a_secret 3000) a_db
       = (Error 404 (js ''Post not found''), a_db)
   \<and> DELETE_api_posts_id_json a_secret (bare_req a_secret 3000) a_file
       = (Success, PostsJson [a_fpost 1000 1000, a_fpost 2000 2000])
   \<and> DELETE_api_posts_id_json a_secret (bare_req a_secret 3000) NoFile
       = (Error 404 (js ''Post not found''), NoFile)"
proof -
  have h1: "adminPassword (bare_req a_secret 2) = a_secret"
    by (simp add: bare_req_def)
  have h1': "adminPassword (bare_req a_secret 3000) = a_secret"
    by (simp add: bare_req_def)
  have h2: "query1_ok an_env"
    by (simp add: an_env_def)
  show ?thesis
    using h1 h1' h2
      delete_exactly_that_id [OF h1 h2,
        where d = a_db
          and stored = "[a_fpost 1000 1000, a_fpost 3000 3000, a_fpost 2000 2000]"]
      delete_exactly_that_id [OF h1' h2,
        where d = a_db
          and stored = "[a_fpost 1000 1000, a_fpost 3000 3000, a_fpost 2000 2000]"]
    by (simp add: a_db_def a_file_def a_row_def a_fpost_def bare_req_def)
qed

subsection \<open>Listing\<close>

text \<open>
  C6. A successful list call returns all stored posts, newest first: the posts returned
  are the API forms of the stored rows, each once, and their creation times do not
  increase along the list. The file server's list call always succeeds: it returns
  the posts that posts.json holds, each once, with dates that do not increase, and
  no post when the file is missing or empty; the file is left as it is.
\<close>

theorem list_newest_first:
  "(GET_api_posts e d = (Posts ps, d') \<longrightarrow>
      d' = d
      \<and> image_mset Some (mset ps) = image_mset mapDbPost (mset (posts d))
      \<and> sorted_wrt (\<lambda>p q. \<forall>a b. post_date p = Some a \<and> post_date q = Some b \<longrightarrow> b \<le> a) ps)
   \<and> (\<exists>qs. GET_api_posts_json (PostsJson stored) = (Posts qs, PostsJson stored)
         \<and> mset qs = mset stored
         \<and> sorted_wrt (\<lambda>p q. fp_date q \<le> fp_date p) qs)
   \<and> GET_api_posts_json NoFile = (Posts [], NoFile)
   \<and> GET_api_posts_json EmptyFile = (Posts [], EmptyFile)"
proof -
  let ?R = "\<lambda>p q. \<forall>a b. post_date p = Some a \<and> post_date q = Some b \<longrightarrow> b \<le> a"
  have pg: "d' = d
      \<and> image_mset Some (mset ps) = image_mset mapDbPost (mset (posts d))
      \<and> sorted_wrt ?R ps"
    if ok: "GET_api_posts e d = (Posts ps, d')"
  proof -
    let ?rows = "sort_by created_desc (posts d)"
    from ok have same: "d' = d"
      by (auto simp: GET_api_posts_def select_posts_def split: option.splits if_splits)
    from ok have "those (map mapDbPost ?rows) = Some ps"
      by (auto simp: GET_api_posts_def select_posts_def split: option.splits if_splits)
    then have eq: "map mapDbPost ?rows = map Some ps"
      by (rule those_Some_map)
    from eq have "mset (map Some ps) = mset (map mapDbPost ?rows)" by (rule arg_cong [OF sym])
    then have "image_mset Some (mset ps) = image_mset mapDbPost (mset ?rows)" by simp
    also have "\<dots> = image_mset mapDbPost (mset (posts d))" by (simp add: mset_sort_by)
    finally have all: "image_mset Some (mset ps) = image_mset mapDbPost (mset (posts d))" .
    have sorted_rows: "sorted_wrt created_desc ?rows"
      by (rule sorted_sort_by [OF created_desc_total created_desc_trans])
    from eq have "length (map mapDbPost ?rows) = length (map Some ps)"
      by (rule arg_cong)
    then have len: "length ps = length ?rows" by simp
    have nth: "mapDbPost (?rows ! i) = Some (ps ! i)" if "i < length ps" for i
    proof -
      from eq have "map mapDbPost ?rows ! i = map Some ps ! i" by (rule arg_cong)
      with that len show ?thesis by simp
    qed
    have "?R (ps ! i) (ps ! j)" if "i < j" and "j < length ps" for i j
    proof -
      from that len have "created_desc (?rows ! i) (?rows ! j)"
        using sorted_rows by (simp add: sorted_wrt_iff_nth_less)
      moreover from that have "post_date (ps ! i) = row_created_at (?rows ! i)"
        using nth [of i] by (simp add: mapDbPost_date)
      moreover from that have "post_date (ps ! j) = row_created_at (?rows ! j)"
        using nth [of j] by (simp add: mapDbPost_date)
      ultimately show ?thesis by (auto simp: created_desc_def)
    qed
    then have "sorted_wrt ?R ps"
      by (simp add: sorted_wrt_iff_nth_less)
    with same all show ?thesis by simp
  qed
  let ?le = "\<lambda>a b. fp_date b - fp_date a \<le> 0"
  have "sorted_wrt ?le (sort_by ?le stored)"
    by (rule sorted_sort_by) (auto simp: algebra_simps)
  then have "sorted_wrt (\<lambda>p q. fp_date q \<le> fp_date p) (sort_by ?le stored)"
    by simp
  then have on_file: "\<exists>qs. GET_api_posts_json (PostsJson stored) = (Posts qs, PostsJson stored)
         \<and> mset qs = mset stored
         \<and> sorted_wrt (\<lambda>p q. fp_date q \<le> fp_date p) qs"
    by (simp add: GET_api_posts_json_def mset_sort_by)
  have no_file: "GET_api_posts_json NoFile = (Posts [], NoFile)"
    by (simp add: GET_api_posts_json_def)
  have empty_file: "GET_api_posts_json EmptyFile = (Posts [], EmptyFile)"
    by (simp add: GET_api_posts_json_def)
  from pg on_file no_file empty_file show ?thesis by blast
qed

theorem list_newest_first_witness:
  "GET_api_posts an_env a_db = (Posts [a_post 2 3000, a_post 3 2000, a_post 1 1000], a_db)
   \<and> image_mset Some (mset [a_post 2 3000, a_post 3 2000, a_post 1 1000])
       = image_mset mapDbPost (mset (posts a_db))
   \<and> sorted_wrt (\<lambda>p q. \<forall>a b. post_date p = Some a \<and> post_date q = Some b \<longrightarrow> b \<le> a)
        [a_post 2 3000, a_post 3 2000, a_post 1 1000]
   \<and> GET_api_posts_json a_file
       = (Posts [a_fpost 3000 3000, a_fpost 2000 2000, a_fpost 1000 1000], a_file)
   \<and> mset [a_fpost 3000 3000, a_fpost 2000 2000, a_fpost 1000 1000]
       = mset [a_fpost 1000 1000, a_fpost 3000 3000, a_fpost 2000 2000]
   \<and> sorted_wrt (\<lambda>p q. fp_date q \<le> fp_date p)
        [a_fpost 3000 3000, a_fpost 2000 2000, a_fpost 1000 1000]"
proof -
  let ?stored = "[a_fpost 1000 1000, a_fpost 3000 3000, a_fpost 2000 2000]"
  let ?listed = "[a_fpost 3000 3000, a_fpost 2000 2000, a_fpost 1000 1000]"
  have h: "GET_api_posts an_env a_db
      = (Posts [a_post 2 3000, a_post 3 2000, a_post 1 1000], a_db)"
    by code_simp
  have g: "GET_api_posts_json (PostsJson ?stored) = (Posts ?listed, PostsJson ?stored)"
    by code_simp
  note inst = list_newest_first [where e = an_env and d = a_db and d' = a_db
      and ps = "[a_post 2 3000, a_post 3 2000, a_post 1 1000]" and stored = ?stored]
  from inst obtain qs
    where qs: "GET_api_posts_json (PostsJson ?stored) = (Posts qs, PostsJson ?stored)"
      and all: "mset qs = mset ?stored"
      and sorted_qs: "sorted_wrt (\<lambda>p q. fp_date q \<le> fp_date p) qs"
    by blast
  from qs g have "qs = ?listed" by simp
  with all sorted_qs g have on_file: "GET_api_posts_json a_file = (Posts ?listed, a_file)"
      "mset ?listed = mset ?stored"
      "sorted_wrt (\<lambda>p q. fp_date q \<le> fp_date p) ?listed"
    by (simp_all only: a_file_def)
  from h inst on_file show ?thesis by blast
qed

subsection \<open>What the handlers write\<close>

lemma primary_image_written:
  "primary_image (Some (first_or_empty xs)) (JArr (map JStr xs)) = Some (JStr (first_or_empty xs))"
  by (cases xs) (auto simp: primary_image_def first_or_empty_def falsy_def or_empty_def or_else_def)

lemma jsonb_in_strings:
  "jsonb_in (JSON_stringify (JArr (map JStr xs))) = Some (JArr (map JStr xs))"
  using JSON_roundtrip_strings [of xs]
  by (simp add: jsonb_in_def JSON_stringify_def del: stringify_value.simps)

lemma mapDbPost_written:
  assumes "row_images r = JArr (map JStr xs)" and "row_image_url r = Some (first_or_empty xs)"
  shows "mapDbPost r =
     Some \<lparr>post_id = row_id r, post_title = row_title r,
           post_category = or_empty (row_category r), post_content = row_content r,
           post_images = JArr (map JStr xs), post_imageUrl = JStr (first_or_empty xs),
           post_affiliateLink = or_empty (row_affiliate_link r),
           post_date = row_created_at r, post_updatedAt = row_updated_at r\<rparr>"
  using assms by (simp add: mapDbPost_def normalize_images_def primary_image_written)

lemma primary_is_first_written:
  "post_images p = JArr (map JStr xs) \<Longrightarrow> post_imageUrl p = JStr (first_or_empty xs)
     \<Longrightarrow> primary_is_first p"
  by (cases xs) (simp_all add: primary_is_first_def first_or_empty_def)

lemma written_row_mapDbPost:
  "written_row r \<Longrightarrow> \<exists>p. mapDbPost r = Some p \<and> primary_is_first p"
  unfolding written_row_def
  by (auto simp: mapDbPost_written intro!: primary_is_first_written)

lemma POST_api_posts_success:
  assumes "adminPassword r = A" and "\<not> falsy (title r)" and "\<not> falsy (content r)"
    and "query1_ok e"
  shows "\<exists>p. mapDbPost (created_row e r d) = Some p
     \<and> POST_api_posts A e r d =
         (SuccessPost p,
          d\<lparr>posts := posts d @ [created_row e r d], posts_id_seq := posts_id_seq d + 1\<rparr>)"
proof -
  have m: "\<exists>p. mapDbPost (created_row e r d) = Some p"
    by (simp add: mapDbPost_written [of _ "upload_urls r"] created_row_def)
  then obtain p where p: "mapDbPost (created_row e r d) = Some p" by blast
  have "POST_api_posts A e r d =
         (SuccessPost p,
          d\<lparr>posts := posts d @ [created_row e r d], posts_id_seq := posts_id_seq d + 1\<rparr>)"
    using assms p
    by (simp add: POST_api_posts_def insert_post_def jsonb_in_strings respond_post_def
        created_row_def [symmetric] Let_def del: stringify_value.simps)
  with p show ?thesis by blast
qed

lemma POST_api_posts_failure:
  assumes "adminPassword r \<noteq> A \<or> falsy (title r) \<or> falsy (content r) \<or> \<not> query1_ok e"
  shows "snd (POST_api_posts A e r d) = d" and "\<forall>p. fst (POST_api_posts A e r d) \<noteq> SuccessPost p"
  using assms
  by (auto simp: POST_api_posts_def insert_post_def Let_def)

lemma filter_updated:
  assumes "\<And>x. row_id (U x) = row_id x"
  shows "filter (\<lambda>x. row_id x = i) (map (\<lambda>x. if row_id x = i then U x else x) rows)
       = map U (filter (\<lambda>x. row_id x = i) rows)"
  by (induction rows) (simp_all add: assms)

lemma row_id_updated_row: "row_id (updated_row e r imgs x) = row_id x"
  by (simp add: updated_row_def)

lemma mapDbPost_updated_row:
  "mapDbPost (updated_row e r imgs x) =
     Some \<lparr>post_id = row_id x, post_title = or_empty (title r),
           post_category = or_empty (category r), post_content = or_empty (content r),
           post_images = JArr (map JStr imgs), post_imageUrl = JStr (first_or_empty imgs),
           post_affiliateLink = or_empty (affiliateLink r),
           post_date = row_created_at x, post_updatedAt = Some (new_date e)\<rparr>"
  by (simp add: mapDbPost_written [of _ imgs] updated_row_def or_empty_def)

lemma PUT_api_posts_id_success:
  assumes auth: "adminPassword r = A"
    and valid: "\<not> falsy (title r)" "\<not> falsy (content r)"
    and up: "query1_ok e"
    and found: "filter (\<lambda>x. row_id x = params_id r) (posts d) = ex # others"
    and ex_images: "row_images ex = JArr (map JStr xs)"
    and ex_url: "row_image_url ex = Some (first_or_empty xs)"
    and imgs: "imgs = (if upload_urls r = [] then xs else upload_urls r)"
  shows "\<exists>p. mapDbPost (updated_row e r imgs ex) = Some p
     \<and> PUT_api_posts_id A e r d =
         (if query2_ok e
          then (SuccessPost p,
                d\<lparr>posts := map (\<lambda>x. if row_id x = params_id r
                                      then updated_row e r imgs x else x) (posts d)\<rparr>)
          else (Error 500 (js ''Failed to update post''), d))"
proof -
  obtain p where p: "mapDbPost (updated_row e r imgs ex) = Some p"
    by (simp add: mapDbPost_updated_row)
  have final_images: "(case upload_urls r of [] \<Rightarrow> normalize_images (row_images ex)
                       | _ # _ \<Rightarrow> JArr (map JStr (upload_urls r))) = JArr (map JStr imgs)"
    using ex_images imgs by (simp add: normalize_images_def split: list.splits)
  have final_url: "(case upload_urls r of
                      [] \<Rightarrow> primary_image (row_image_url ex) (normalize_images (row_images ex))
                    | u # _ \<Rightarrow> Some (JStr u)) = Some (JStr (first_or_empty imgs))"
  proof (cases "upload_urls r")
    case Nil
    then show ?thesis
      using ex_images ex_url imgs by (simp add: normalize_images_def primary_image_written)
  next
    case (Cons u us)
    then show ?thesis
      using imgs by (simp add: first_or_empty_def)
  qed
  let ?rows = "map (\<lambda>x. if row_id x = params_id r then updated_row e r imgs x else x) (posts d)"
  have "update_post True (or_empty (title r)) (or_empty (category r))
        (or_empty (content r)) (or_empty (affiliateLink r))
        (JSON_stringify (JArr (map JStr imgs))) (Some (first_or_empty imgs)) (new_date e)
        (params_id r) d
      = Some (filter (\<lambda>x. row_id x = params_id r) ?rows, d\<lparr>posts := ?rows\<rparr>)"
    by (simp add: update_post_def jsonb_in_strings updated_row_def Let_def
        del: stringify_value.simps cong: if_cong)
  also have "filter (\<lambda>x. row_id x = params_id r) ?rows
      = map (updated_row e r imgs) (filter (\<lambda>x. row_id x = params_id r) (posts d))"
    by (rule filter_updated) (rule row_id_updated_row)
  finally have upd: "update_post True (or_empty (title r)) (or_empty (category r))
        (or_empty (content r)) (or_empty (affiliateLink r))
        (JSON_stringify (JArr (map JStr imgs))) (Some (first_or_empty imgs)) (new_date e)
        (params_id r) d
      = Some (updated_row e r imgs ex # map (updated_row e r imgs) others, d\<lparr>posts := ?rows\<rparr>)"
    using found by simp
  have down: "update_post False p1 p2 p3 p4 p5 p6 p7 p8 d = None" for p1 p2 p3 p4 p5 p6 p7 p8
    by (simp add: update_post_def)
  have "PUT_api_posts_id A e r d =
         (if query2_ok e
          then (SuccessPost p,
                d\<lparr>posts := map (\<lambda>x. if row_id x = params_id r
                                      then updated_row e r imgs x else x) (posts d)\<rparr>)
          else (Error 500 (js ''Failed to update post''), d))"
    using auth valid up found p
    by (simp add: PUT_api_posts_id_def select_post_def Let_def final_images final_url upd
        down respond_post_def del: stringify_value.simps)
  with p show ?thesis by blast
qed

lemma written_created_row: "written_row (created_row e r d)"
  unfolding written_row_def by (rule exI [of _ "upload_urls r"]) (simp add: created_row_def)

lemma written_updated_row: "written_row (updated_row e r imgs x)"
  unfolding written_row_def by (rule exI [of _ imgs]) (simp add: updated_row_def)

lemma GET_api_posts_store: "snd (GET_api_posts e d) = d"
  by (simp add: GET_api_posts_def split: option.splits)

lemma POST_api_posts_store:
  "snd (POST_api_posts A e r d) = d
   \<or> snd (POST_api_posts A e r d)
       = d\<lparr>posts := posts d @ [created_row e r d], posts_id_seq := posts_id_seq d + 1\<rparr>"
proof (cases "adminPassword r = A \<and> \<not> falsy (title r) \<and> \<not> falsy (content r) \<and> query1_ok e")
  case True
  then show ?thesis using POST_api_posts_success [of r A e d] by auto
next
  case False
  then show ?thesis using POST_api_posts_failure(1) [of r A e d] by blast
qed

lemma DELETE_api_posts_id_store:
  "snd (DELETE_api_posts_id A e r d) = d
   \<or> snd (DELETE_api_posts_id A e r d)
       = d\<lparr>posts := filter (\<lambda>x. row_id x \<noteq> params_id r) (posts d)\<rparr>"
  by (simp add: DELETE_api_posts_id_def delete_post_def Let_def split: list.splits)

lemma PUT_api_posts_id_store:
  assumes inv: "\<forall>x \<in> set (posts d). written_row x"
  shows "snd (PUT_api_posts_id A e r d) = d
   \<or> (\<exists>imgs. snd (PUT_api_posts_id A e r d)
         = d\<lparr>posts := map (\<lambda>x. if row_id x = params_id r
                               then updated_row e r imgs x else x) (posts d)\<rparr>)"
proof (cases "adminPassword r = A \<and> \<not> falsy (title r) \<and> \<not> falsy (content r) \<and> query1_ok e")
  case False
  then have "snd (PUT_api_posts_id A e r d) = d"
    by (auto simp: PUT_api_posts_id_def select_post_def Let_def)
  then show ?thesis ..
next
  case True
  show ?thesis
  proof (cases "filter (\<lambda>x. row_id x = params_id r) (posts d)")
    case Nil
    with True have "snd (PUT_api_posts_id A e r d) = d"
      by (simp add: PUT_api_posts_id_def select_post_def Let_def)
    then show ?thesis ..
  next
    case (Cons ex others)
    then have "ex \<in> set (filter (\<lambda>x. row_id x = params_id r) (posts d))" by simp
    then have "written_row ex" using inv by simp
    then obtain xs where xs: "row_images ex = JArr (map JStr xs)"
        "row_image_url ex = Some (first_or_empty xs)"
      unfolding written_row_def by blast
    from True Cons xs
      PUT_api_posts_id_success [of r A e d ex others xs "if upload_urls r = [] then xs else upload_urls r"]
    show ?thesis by (cases "query2_ok e") auto
  qed
qed

lemma PUT_api_posts_id_post:
  assumes inv: "\<forall>x \<in> set (posts d). written_row x"
    and ok: "fst (PUT_api_posts_id A e r d) = SuccessPost p"
  shows "primary_is_first p"
proof -
  have c: "adminPassword r = A \<and> \<not> falsy (title r) \<and> \<not> falsy (content r) \<and> query1_ok e"
    using ok by (rule contrapos_pp) (auto simp: PUT_api_posts_id_def select_post_def Let_def)
  show ?thesis
  proof (cases "filter (\<lambda>x. row_id x = params_id r) (posts d)")
    case Nil
    with c ok show ?thesis
      by (simp add: PUT_api_posts_id_def select_post_def Let_def)
  next
    case (Cons ex others)
    then have "ex \<in> set (filter (\<lambda>x. row_id x = params_id r) (posts d))" by simp
    then have "written_row ex" using inv by simp
    then obtain xs where xs: "row_images ex = JArr (map JStr xs)"
        "row_image_url ex = Some (first_or_empty xs)"
      unfolding written_row_def by blast
    let ?imgs = "if upload_urls r = [] then xs else upload_urls r"
    from c Cons xs PUT_api_posts_id_success [of r A e d ex others xs ?imgs]
    obtain q where q: "mapDbPost (updated_row e r ?imgs ex) = Some q"
      and put: "PUT_api_posts_id A e r d =
         (if query2_ok e
          then (SuccessPost q,
                d\<lparr>posts := map (\<lambda>x. if row_id x = params_id r
                                      then updated_row e r ?imgs x else x) (posts d)\<rparr>)
          else (Error 500 (js ''Failed to update post''), d))"
      by blast
    from put ok have "p = q" by (cases "query2_ok e") simp_all
    moreover from q written_updated_row [of e r ?imgs ex] have "primary_is_first q"
      using written_row_mapDbPost by fastforce
    ultimately show ?thesis by simp
  qed
qed

lemma POST_api_posts_post:
  assumes ok: "fst (POST_api_posts A e r d) = SuccessPost p"
  shows "primary_is_first p"
proof -
  have c: "adminPassword r = A \<and> \<not> falsy (title r) \<and> \<not> falsy (content r) \<and> query1_ok e"
    using ok POST_api_posts_failure(2) [of r A e d] by blast
  with POST_api_posts_success [of r A e d] obtain q
    where q: "mapDbPost (created_row e r d) = Some q"
      and "POST_api_posts A e r d =
         (SuccessPost q,
          d\<lparr>posts := posts d @ [created_row e r d], posts_id_seq := posts_id_seq d + 1\<rparr>)"
    by blast
  with ok have "p = q" by simp
  moreover from q written_created_row [of e r d] have "primary_is_first q"
    using written_row_mapDbPost by fastforce
  ultimately show ?thesis by simp
qed

lemma GET_api_posts_posts:
  assumes inv: "\<forall>x \<in> set (posts d). written_row x"
    and ok: "fst (GET_api_posts e d) = Posts ps"
  shows "\<forall>p \<in> set ps. primary_is_first p"
proof -
  let ?rows = "sort_by created_desc (posts d)"
  from ok have "those (map mapDbPost ?rows) = Some ps"
    by (auto simp: GET_api_posts_def select_posts_def split: option.splits if_splits)
  then have eq: "map mapDbPost ?rows = map Some ps" by (rule those_Some_map)
  have rows: "set ?rows = set (posts d)"
    by (rule set_sort_by)
  show ?thesis
  proof
    fix p assume "p \<in> set ps"
    then have "Some p \<in> set (map Some ps)" by simp
    with eq have "Some p \<in> set (map mapDbPost ?rows)" by simp
    then obtain x where x: "x \<in> set ?rows" and m: "mapDbPost x = Some p" by auto
    from x rows inv have "written_row x" by simp
    with m show "primary_is_first p" using written_row_mapDbPost by fastforce
  qed
qed

lemma reachable_written: "reachable A d \<Longrightarrow> \<forall>x \<in> set (posts d). written_row x"
proof (induction rule: reachable.induct)
  case start
  show ?case by (simp add: empty_db_def)
next
  case (listed d e)
  then show ?case by (simp add: GET_api_posts_store)
next
  case (created d e r)
  then show ?case
    using POST_api_posts_store [of A e r d] by (auto simp: written_created_row)
next
  case (updated d e r)
  then show ?case
    using PUT_api_posts_id_store [of d A e r] by (auto simp: written_updated_row)
next
  case (deleted d e r)
  then show ?case
    using DELETE_api_posts_id_store [of A e r d] by auto
qed

lemma findIndex_Some:
  "findIndex P xs = Some i \<Longrightarrow> i < length xs \<and> P (xs ! i) \<and> (\<forall>j < i. \<not> P (xs ! j))"
proof (induction xs arbitrary: i)
  case Nil
  then show ?case by simp
next
  case (Cons x xs)
  show ?case
  proof (cases "P x")
    case True
    with Cons.prems show ?thesis by simp
  next
    case False
    with Cons.prems obtain k where k: "findIndex P xs = Some k" and i: "i = Suc k"
      by (auto split: option.splits)
    from Cons.IH [OF k] False i show ?thesis
      by (auto simp: nth_Cons split: nat.splits)
  qed
qed

lemma findIndex_None: "(findIndex P xs = None) = (\<forall>x \<in> set xs. \<not> P x)"
  by (induction xs) (auto split: option.splits)

lemma POST_api_posts_json_post:
  "fst (POST_api_posts_json A e r f) = SuccessPost p \<Longrightarrow> primary_is_first_json p"
  by (auto simp: POST_api_posts_json_def Let_def primary_is_first_json_def first_or_empty_def
      split: if_splits list.splits)

lemma POST_api_posts_json_store:
  "snd (POST_api_posts_json A e r f) = f
   \<or> (\<exists>p. primary_is_first_json p
          \<and> snd (POST_api_posts_json A e r f) = PostsJson (readPosts f @ [p]))"
  by (auto simp: POST_api_posts_json_def Let_def primary_is_first_json_def first_or_empty_def
      writePosts_def split: list.splits)

lemma PUT_api_posts_id_json_eq:
  "PUT_api_posts_id_json A e r f =
     (if adminPassword r \<noteq> A then (Error 401 (js ''Unauthorized''), f)
      else if falsy (title r) \<or> falsy (content r)
        then (Error 400 (js ''Title and content are required''), f)
      else case findIndex (\<lambda>p. fp_id p = params_id r) (readPosts f) of
             None \<Rightarrow> (Error 404 (js ''Post not found''), f)
           | Some i \<Rightarrow>
               (SuccessPost (updated_fpost e r (readPosts f ! i)),
                PostsJson ((readPosts f)[i := updated_fpost e r (readPosts f ! i)])))"
  by (simp add: PUT_api_posts_id_json_def updated_fpost_def Let_def writePosts_def
      split: option.splits)

lemma first_updated_fpost:
  assumes "primary_is_first_json x"
  shows "primary_is_first_json (updated_fpost e r x)"
proof (cases "upload_urls r")
  case (Cons u us)
  then show ?thesis by (simp add: updated_fpost_def primary_is_first_json_def Let_def)
next
  case Nil
  from assms obtain xs where xs: "fp_images x = Some xs"
    by (auto simp: primary_is_first_json_def split: option.splits)
  show ?thesis
  proof (cases xs)
    case Nil
    with assms xs \<open>upload_urls r = []\<close> show ?thesis
      by (simp add: updated_fpost_def primary_is_first_json_def falsy_def first_or_empty_def
          Let_def)
  next
    case (Cons y ys)
    with assms xs \<open>upload_urls r = []\<close> show ?thesis
      by (simp add: updated_fpost_def primary_is_first_json_def falsy_def first_or_empty_def
          or_empty_def Let_def)
  qed
qed

lemma PUT_api_posts_id_json_outcome:
  assumes inv: "\<forall>x \<in> set (readPosts f). primary_is_first_json x"
  shows "(\<forall>p. fst (PUT_api_posts_id_json A e r f) \<noteq> SuccessPost p)
           \<and> snd (PUT_api_posts_id_json A e r f) = f
   \<or> (\<exists>p i. primary_is_first_json p \<and> i < length (readPosts f)
          \<and> PUT_api_posts_id_json A e r f
              = (SuccessPost p, PostsJson ((readPosts f)[i := p])))"
proof (cases "findIndex (\<lambda>p. fp_id p = params_id r) (readPosts f)")
  case None
  then show ?thesis by (simp add: PUT_api_posts_id_json_eq)
next
  case (Some i)
  then have i: "i < length (readPosts f)" using findIndex_Some by fastforce
  then have "readPosts f ! i \<in> set (readPosts f)" by simp
  with inv have "primary_is_first_json (updated_fpost e r (readPosts f ! i))"
    by (simp add: first_updated_fpost)
  with Some i show ?thesis by (auto simp: PUT_api_posts_id_json_eq)
qed

lemma DELETE_api_posts_id_json_store:
  "snd (DELETE_api_posts_id_json A r f) = f
   \<or> snd (DELETE_api_posts_id_json A r f)
       = PostsJson (filter (\<lambda>p. fp_id p \<noteq> params_id r) (readPosts f))"
  by (simp add: DELETE_api_posts_id_json_def Let_def writePosts_def)

lemma reachable_json_first:
  "reachable_json A f \<Longrightarrow> \<forall>x \<in> set (readPosts f). primary_is_first_json x"
proof (induction rule: reachable_json.induct)
  case no_file
  show ?case by simp
next
  case empty_file
  show ?case by simp
next
  case (listed_json f)
  then show ?case by (simp add: GET_api_posts_json_def Let_def)
next
  case (created_json f e r)
  then show ?case using POST_api_posts_json_store [of A e r f] by auto
next
  case (updated_json f e r)
  from PUT_api_posts_id_json_outcome [OF updated_json.IH, of A e r]
  show ?case
  proof
    assume "(\<forall>p. fst (PUT_api_posts_id_json A e r f) \<noteq> SuccessPost p)
           \<and> snd (PUT_api_posts_id_json A e r f) = f"
    with updated_json.IH show ?thesis by simp
  next
    assume "\<exists>p i. primary_is_first_json p \<and> i < length (readPosts f)
          \<and> PUT_api_posts_id_json A e r f
              = (SuccessPost p, PostsJson ((readPosts f)[i := p]))"
    then obtain p i where p: "primary_is_first_json p"
      and eq: "PUT_api_posts_id_json A e r f = (SuccessPost p, PostsJson ((readPosts f)[i := p]))"
      by blast
    have "set ((readPosts f)[i := p]) \<subseteq> insert p (set (readPosts f))"
      by (rule set_update_subset_insert)
    with p updated_json.IH eq show ?thesis by auto
  qed
next
  case (deleted_json f r)
  then show ?case using DELETE_api_posts_id_json_store [of A r f] by auto
qed

subsection \<open>The primary image\<close>

text \<open>
  C1. In every state that the routes reach from the empty store, every post returned
  by the list, create and update operations has a list in \<open>images\<close>, and its
  \<open>imageUrl\<close> is \<open>images[0]\<close> when the list is not empty and the empty string when it
  is. This holds in both servers.
\<close>

theorem imageUrl_is_first_image:
  assumes "reachable ADMIN_PASSWORD d" and "reachable_json ADMIN_PASSWORD f"
  shows "(fst (GET_api_posts e d) = Posts ps \<longrightarrow> (\<forall>p \<in> set ps. primary_is_first p))
       \<and> (fst (POST_api_posts ADMIN_PASSWORD e r d) = SuccessPost p1 \<longrightarrow> primary_is_first p1)
       \<and> (fst (PUT_api_posts_id ADMIN_PASSWORD e r d) = SuccessPost p2 \<longrightarrow> primary_is_first p2)
       \<and> (fst (GET_api_posts_json f) = Posts qs \<longrightarrow> (\<forall>q \<in> set qs. primary_is_first_json q))
       \<and> (fst (POST_api_posts_json ADMIN_PASSWORD e r f) = SuccessPost q1
            \<longrightarrow> primary_is_first_json q1)
       \<and> (fst (PUT_api_posts_id_json ADMIN_PASSWORD e r f) = SuccessPost q2
            \<longrightarrow> primary_is_first_json q2)"
proof -
  from assms(1) have inv: "\<forall>x \<in> set (posts d). written_row x" by (rule reachable_written)
  from assms(2) have inv_json: "\<forall>x \<in> set (readPosts f). primary_is_first_json x"
    by (rule reachable_json_first)
  have "fst (GET_api_posts_json f) = Posts qs \<longrightarrow> (\<forall>q \<in> set qs. primary_is_first_json q)"
  proof
    assume "fst (GET_api_posts_json f) = Posts qs"
    then have "qs = sort_by (\<lambda>a b. fp_date b - fp_date a \<le> 0) (readPosts f)"
      by (simp add: GET_api_posts_json_def Let_def)
    then have "set qs = set (readPosts f)"
      by (simp add: set_sort_by)
    with inv_json show "\<forall>q \<in> set qs. primary_is_first_json q" by simp
  qed
  moreover have "fst (PUT_api_posts_id_json ADMIN_PASSWORD e r f) = SuccessPost q2
      \<longrightarrow> primary_is_first_json q2"
    using PUT_api_posts_id_json_outcome [OF inv_json, of ADMIN_PASSWORD e r] by auto
  ultimately show ?thesis
    using GET_api_posts_posts [OF inv] POST_api_posts_post PUT_api_posts_id_post [OF inv]
      POST_api_posts_json_post
    by blast
qed

theorem imageUrl_is_first_image_witness:
  "reachable a_secret db_two_images \<and> reachable_json a_secret file_two_images
   \<and> fst (GET_api_posts an_env db_two_images) = Posts [post_two_images]
   \<and> primary_is_first post_two_images
   \<and> fst (GET_api_posts_json file_two_images) = Posts [fpost_two_images]
   \<and> primary_is_first_json fpost_two_images"
proof -
  have h1: "reachable a_secret db_two_images"
    unfolding db_two_images_def by (rule reachable.created [OF reachable.start])
  have h2: "reachable_json a_secret file_two_images"
    unfolding file_two_images_def by (rule reachable_json.created_json [OF reachable_json.no_file])
  have h3: "fst (GET_api_posts an_env db_two_images) = Posts [post_two_images]"
    by code_simp
  have h4: "fst (GET_api_posts_json file_two_images) = Posts [fpost_two_images]"
    by code_simp
  show ?thesis
    using h1 h2 h3 h4
      imageUrl_is_first_image [OF h1 h2, of an_env "[post_two_images]" _ _ _
        "[fpost_two_images]"]
    by simp
qed

subsection \<open>The admin secret\<close>

text \<open>
  A mutating request whose secret is not the configured value is answered 401 and
  leaves the store as it was; so is a request without a secret, as long as a secret
  is configured.
\<close>

lemma wrong_secret_rejected:
  assumes "adminPassword r \<noteq> ADMIN_PASSWORD"
  shows "POST_api_posts ADMIN_PASSWORD e r d = (Error 401 (js ''Unauthorized''), d)"
    and "PUT_api_posts_id ADMIN_PASSWORD e r d = (Error 401 (js ''Unauthorized''), d)"
    and "DELETE_api_posts_id ADMIN_PASSWORD e r d = (Error 401 (js ''Unauthorized''), d)"
    and "POST_api_posts_json ADMIN_PASSWORD e r f = (Error 401 (js ''Unauthorized''), f)"
    and "PUT_api_posts_id_json ADMIN_PASSWORD e r f = (Error 401 (js ''Unauthorized''), f)"
    and "DELETE_api_posts_id_json ADMIN_PASSWORD r f = (Error 401 (js ''Unauthorized''), f)"
  using assms
  by (simp_all add: POST_api_posts_def PUT_api_posts_id_def DELETE_api_posts_id_def
      POST_api_posts_json_def PUT_api_posts_id_json_def DELETE_api_posts_id_json_def)

lemma omitted_secret_rejected_when_set:
  assumes "adminPassword r = None" and "ADMIN_PASSWORD = Some secret"
  shows "POST_api_posts ADMIN_PASSWORD e r d = (Error 401 (js ''Unauthorized''), d)"
    and "PUT_api_posts_id ADMIN_PASSWORD e r d = (Error 401 (js ''Unauthorized''), d)"
    and "DELETE_api_posts_id ADMIN_PASSWORD e r d = (Error 401 (js ''Unauthorized''), d)"
    and "POST_api_posts_json ADMIN_PASSWORD e r f = (Error 401 (js ''Unauthorized''), f)"
    and "PUT_api_posts_id_json ADMIN_PASSWORD e r f = (Error 401 (js ''Unauthorized''), f)"
    and "DELETE_api_posts_id_json ADMIN_PASSWORD r f = (Error 401 (js ''Unauthorized''), f)"
  using assms by (simp_all add: wrong_secret_rejected)

text \<open>
  C3. A mutating request with a wrong or omitted admin secret is answered 401 and leaves
  the stored posts unchanged. When \<open>ADMIN_PASSWORD\<close> is not set in the environment
  the comparison \<open>adminPassword !== ADMIN_PASSWORD\<close> is \<open>undefined !== undefined\<close> for
  a request that omits the secret, which is false: create, update and delete are
  carried out, in both servers.
\<close>

theorem omitted_secret_accepted_when_unset:
  "POST_api_posts None an_env (a_req None 0 []) empty_db
     = (SuccessPost (a_post 1 1700000000002),
        \<lparr>posts = [a_row 1 1700000000002], posts_id_seq = 2\<rparr>)
   \<and> PUT_api_posts_id None an_env (a_req None 2 []) a_db
     = (SuccessPost ((a_post 2 3000) \<lparr>post_updatedAt := Some 1700000000001\<rparr>),
        \<lparr>posts = [a_row 1 1000, (a_row 2 3000) \<lparr>row_updated_at := Some 1700000000001\<rparr>,
                  a_row 3 2000], posts_id_seq = 4\<rparr>)
   \<and> DELETE_api_posts_id None an_env (bare_req None 2) a_db
     = (Success, \<lparr>posts = [a_row 1 1000, a_row 3 2000], posts_id_seq = 4\<rparr>)
   \<and> POST_api_posts_json None an_env (a_req None 0 []) NoFile
     = (SuccessPost (a_fpost 1700000000000 1700000000001),
        PostsJson [a_fpost 1700000000000 1700000000001])
   \<and> DELETE_api_posts_id_json None (bare_req None 3000) a_file
     = (Success, PostsJson [a_fpost 1000 1000, a_fpost 2000 2000])"
  by code_simp

subsection \<open>Normalizing the stored images\<close>

text \<open>
  A native list is returned as it is; an empty, blank or unparsable string and an
  absent value give the empty list; any other string gives whatever its JSON text
  denotes, and every other value the empty list. The text that the handlers store
  is read back as the list of strings it was written from.
\<close>

lemma normalize_images_list: "normalize_images (JArr vs) = JArr vs"
  by (simp add: normalize_images_def)

lemma normalize_images_blank: "trim s = [] \<Longrightarrow> normalize_images (JStr s) = JArr []"
  by (simp add: normalize_images_def)

lemma normalize_images_unparsable:
  "JSON_parse s = None \<Longrightarrow> normalize_images (JStr s) = JArr []"
  by (simp add: normalize_images_def)

lemma normalize_images_parsed:
  "trim s \<noteq> [] \<Longrightarrow> JSON_parse s = Some v \<Longrightarrow> normalize_images (JStr s) = v"
  by (simp add: normalize_images_def)

lemma normalize_images_absent:
  "normalize_images JNull = JArr []" and "normalize_images JUndefined = JArr []"
  by (simp_all add: normalize_images_def)

lemma normalize_images_other:
  "normalize_images (JBool b) = JArr []" and "normalize_images (JNum n) = JArr []"
    and "normalize_images (JObj ms) = JArr []"
  by (simp_all add: normalize_images_def)

lemma trim_text_of_list: "trim (stringify_value (JArr vs)) \<noteq> []"
proof -
  have no_space: "\<not> is_js_space 0x5B"
    by (simp add: is_js_space_def)
  have "trim (0x5B # cs) \<noteq> []" for cs
    by (simp add: trim_def no_space dropWhile_eq_Nil_conv)
  then show ?thesis by simp
qed

lemma normalize_images_text_of_strings:
  "normalize_images (JStr (stringify_value (JArr (map JStr xs)))) = JArr (map JStr xs)"
  using trim_text_of_list [of "map JStr xs"] JSON_roundtrip_strings [of xs]
  by (simp add: normalize_images_def del: stringify_value.simps)

text \<open>
  C5. The normalization of a stored row always exposes \<open>images\<close> as a list. A string
  that is JSON text for something other than an array is not mapped to a list: the
  text \<open>42\<close> gives the number, \<open>{}\<close> the object, and \<open>null\<close> makes \<open>images[0]\<close>
  throw when \<open>image_url\<close> is empty, so that a list call over a table with such a row
  is answered 500.
\<close>

theorem images_text_not_a_list:
  "map_option post_images (mapDbPost ((a_row 1 1000) \<lparr>row_images := JStr (js ''42'')\<rparr>))
     = Some (JNum (js ''42''))
   \<and> map_option post_images (mapDbPost ((a_row 1 1000) \<lparr>row_images := JStr (js ''{}'')\<rparr>))
     = Some (JObj [])
   \<and> mapDbPost ((a_row 1 1000) \<lparr>row_images := JStr (js ''null'')\<rparr>) = None
   \<and> GET_api_posts an_env
        \<lparr>posts = [a_row 1 1000, (a_row 2 3000) \<lparr>row_images := JStr (js ''null'')\<rparr>],
         posts_id_seq = 3\<rparr>
     = (Error 500 (js ''Failed to fetch posts''),
        \<lparr>posts = [a_row 1 1000, (a_row 2 3000) \<lparr>row_images := JStr (js ''null'')\<rparr>],
         posts_id_seq = 3\<rparr>)"
  by code_simp

subsection \<open>Creating\<close>

text \<open>
  In server.js the id comes from the sequence of the table: it is above the id of
  every stored row, the ids handed out along a run increase strictly, and the new
  post is in the list that is requested next.
\<close>

lemma assigned_ids_reachable: "assigned_ids A ids d \<Longrightarrow> reachable A d"
  by (induction rule: assigned_ids.induct) (auto intro: reachable.intros)

lemma posts_id_seq_PUT:
  assumes "\<forall>x \<in> set (posts d). written_row x"
  shows "posts_id_seq (snd (PUT_api_posts_id A e r d)) = posts_id_seq d"
  using PUT_api_posts_id_store [OF assms, of A e r] by auto

lemma posts_id_seq_DELETE: "posts_id_seq (snd (DELETE_api_posts_id A e r d)) = posts_id_seq d"
  using DELETE_api_posts_id_store [of A e r d] by auto

lemma POST_api_posts_id:
  "assigned_id (fst (POST_api_posts A e r d)) = []
     \<and> snd (POST_api_posts A e r d) = d
   \<or> assigned_id (fst (POST_api_posts A e r d)) = [posts_id_seq d]
     \<and> posts_id_seq (snd (POST_api_posts A e r d)) = posts_id_seq d + 1"
proof (cases "adminPassword r = A \<and> \<not> falsy (title r) \<and> \<not> falsy (content r) \<and> query1_ok e")
  case True
  with POST_api_posts_success [of r A e d] obtain p
    where p: "mapDbPost (created_row e r d) = Some p"
      and eq: "POST_api_posts A e r d =
         (SuccessPost p,
          d\<lparr>posts := posts d @ [created_row e r d], posts_id_seq := posts_id_seq d + 1\<rparr>)"
    by blast
  from p have "post_id p = posts_id_seq d"
    using mapDbPost_id by (fastforce simp: created_row_def)
  with eq show ?thesis by simp
next
  case False
  then have "snd (POST_api_posts A e r d) = d"
    and "\<forall>p. fst (POST_api_posts A e r d) \<noteq> SuccessPost p"
    using POST_api_posts_failure [of r A e d] by blast+
  then show ?thesis by (cases "fst (POST_api_posts A e r d)") simp_all
qed

lemma assigned_ids_increase:
  "assigned_ids A ids d \<Longrightarrow> sorted_wrt (<) ids \<and> (\<forall>i \<in> set ids. i < posts_id_seq d)"
proof (induction rule: assigned_ids.induct)
  case none_yet
  show ?case by simp
next
  case (after_list ids d e)
  then show ?case by (simp add: GET_api_posts_store)
next
  case (after_create ids d e r)
  from POST_api_posts_id [of A e r d] after_create.IH show ?case
    by (auto simp: sorted_wrt_append)
next
  case (after_update ids d e r)
  from after_update.hyps have "\<forall>x \<in> set (posts d). written_row x"
    by (intro reachable_written assigned_ids_reachable)
  with after_update.IH show ?case by (simp add: posts_id_seq_PUT)
next
  case (after_delete ids d e r)
  then show ?case by (simp add: posts_id_seq_DELETE)
qed

lemma those_map_total:
  "\<forall>x \<in> set xs. f x \<noteq> None \<Longrightarrow> those (map f xs) = Some (map (the \<circ> f) xs)"
  by (induction xs) auto

lemma GET_api_posts_reachable:
  assumes "reachable A d" and "query1_ok e"
  shows "GET_api_posts e d
     = (Posts (map (the \<circ> mapDbPost) (sort_by created_desc (posts d))), d)"
proof -
  from assms(1) have "\<forall>x \<in> set (posts d). written_row x" by (rule reachable_written)
  then have "\<forall>x \<in> set (sort_by created_desc (posts d)). mapDbPost x \<noteq> None"
    using written_row_mapDbPost by (fastforce simp: set_sort_by)
  then have "those (map mapDbPost (sort_by created_desc (posts d)))
      = Some (map (the \<circ> mapDbPost) (sort_by created_desc (posts d)))"
    by (rule those_map_total)
  with assms(2) show ?thesis by (simp add: GET_api_posts_def select_posts_def)
qed

lemma reachable_ids_below:
  "reachable A d \<Longrightarrow> \<forall>x \<in> set (posts d). row_id x < posts_id_seq d"
proof (induction rule: reachable.induct)
  case start
  show ?case by (simp add: empty_db_def)
next
  case (listed d e)
  then show ?case by (simp add: GET_api_posts_store)
next
  case (created d e r)
  from POST_api_posts_store [of A e r d] show ?case
  proof
    assume "snd (POST_api_posts A e r d) = d"
    with created.IH show ?thesis by simp
  next
    assume "snd (POST_api_posts A e r d)
       = d\<lparr>posts := posts d @ [created_row e r d], posts_id_seq := posts_id_seq d + 1\<rparr>"
    moreover have "row_id (created_row e r d) = posts_id_seq d" by (simp add: created_row_def)
    moreover from created.IH have "\<forall>x \<in> set (posts d). row_id x < posts_id_seq d + 1"
      by fastforce
    ultimately show ?thesis by simp
  qed
next
  case (updated d e r)
  from updated.hyps have "\<forall>x \<in> set (posts d). written_row x" by (rule reachable_written)
  from PUT_api_posts_id_store [OF this, of A e r] updated.IH show ?case
    by (fastforce simp: row_id_updated_row)
next
  case (deleted d e r)
  then show ?case
    using DELETE_api_posts_id_store [of A e r d] by auto
qed

lemma created_post_listed:
  assumes reach: "reachable A d"
    and ok: "adminPassword r = A" "\<not> falsy (title r)" "\<not> falsy (content r)" "query1_ok e"
    and later: "query1_ok e'"
  shows "\<exists>p d' ps. POST_api_posts A e r d = (SuccessPost p, d')
     \<and> post_id p = posts_id_seq d \<and> (\<forall>x \<in> set (posts d). row_id x < post_id p)
     \<and> GET_api_posts e' d' = (Posts ps, d') \<and> p \<in> set ps"
proof -
  let ?d' = "d\<lparr>posts := posts d @ [created_row e r d], posts_id_seq := posts_id_seq d + 1\<rparr>"
  from POST_api_posts_success [OF ok] obtain p
    where p: "mapDbPost (created_row e r d) = Some p"
      and eq: "POST_api_posts A e r d = (SuccessPost p, ?d')"
    by blast
  from p have id: "post_id p = posts_id_seq d"
    using mapDbPost_id by (fastforce simp: created_row_def)
  have "reachable A (snd (POST_api_posts A e r d))" using reach by (rule reachable.created)
  with eq have "reachable A ?d'" by simp
  from GET_api_posts_reachable [OF this later]
  have get: "GET_api_posts e' ?d'
      = (Posts (map (the \<circ> mapDbPost) (sort_by created_desc (posts ?d'))), ?d')" .
  have "created_row e r d \<in> set (sort_by created_desc (posts ?d'))"
    by (simp add: set_sort_by)
  then have "(the \<circ> mapDbPost) (created_row e r d)
      \<in> set (map (the \<circ> mapDbPost) (sort_by created_desc (posts ?d')))"
    unfolding set_map by (rule imageI)
  with p have listed: "p \<in> set (map (the \<circ> mapDbPost) (sort_by created_desc (posts ?d')))"
    by simp
  have below: "\<forall>x \<in> set (posts d). row_id x < posts_id_seq d"
    using reach by (rule reachable_ids_below)
  from eq id below get listed show ?thesis by auto
qed

text \<open>
  In the server that keeps posts.json the id is what \<open>Date.now()\<close> returns; the new
  post is appended to the file and is in the list that is requested next.
\<close>

lemma created_post_listed_json:
  assumes "adminPassword r = A" and "\<not> falsy (title r)" and "\<not> falsy (content r)"
  shows "\<exists>p ps. POST_api_posts_json A e r f = (SuccessPost p, PostsJson (readPosts f @ [p]))
     \<and> fp_id p = date_now e
     \<and> GET_api_posts_json (PostsJson (readPosts f @ [p]))
         = (Posts ps, PostsJson (readPosts f @ [p]))
     \<and> p \<in> set ps"
  using assms
  by (simp add: POST_api_posts_json_def GET_api_posts_json_def Let_def writePosts_def
      set_sort_by)

text \<open>
  C2. The id of a created post is unique among all posts ever created. The server that
  keeps posts.json takes \<open>Date.now()\<close> as the id: two valid create requests handled
  within the same millisecond are both answered 200 with the same id, and both posts
  are stored under it.
\<close>

theorem same_millisecond_same_id:
  "POST_api_posts_json a_secret an_env (a_req a_secret 0 []) NoFile
     = (SuccessPost (a_fpost 1700000000000 1700000000001),
        PostsJson [a_fpost 1700000000000 1700000000001])
   \<and> POST_api_posts_json a_secret (an_env \<lparr>new_date := 1700000000009\<rparr>) (a_req a_secret 0 [])
       (PostsJson [a_fpost 1700000000000 1700000000001])
     = (SuccessPost (a_fpost 1700000000000 1700000000009),
        PostsJson [a_fpost 1700000000000 1700000000001, a_fpost 1700000000000 1700000000009])"
  by code_simp

subsection \<open>Updating\<close>

text \<open>
  In server.js an update of an existing post, in a reachable state and with storage
  answering, overwrites title, category, content and affiliate link (the last two
  with the empty string when absent), replaces images and \<open>imageUrl\<close> exactly when
  files were uploaded, sets \<open>updatedAt\<close> to the current time and keeps id and
  creation time.
\<close>

lemma update_overwrites:
  assumes reach: "reachable A d"
    and ok: "adminPassword r = A" "\<not> falsy (title r)" "\<not> falsy (content r)"
      "query1_ok e" "query2_ok e"
    and found: "filter (\<lambda>x. row_id x = params_id r) (posts d) = ex # others"
  shows "\<exists>old new d'. mapDbPost ex = Some old
     \<and> PUT_api_posts_id A e r d = (SuccessPost new, d')
     \<and> title r = Some (post_title new) \<and> content r = Some (post_content new)
     \<and> post_category new = or_empty (category r)
     \<and> post_affiliateLink new = or_empty (affiliateLink r)
     \<and> (upload_urls r = [] \<longrightarrow>
           post_images new = post_images old \<and> post_imageUrl new = post_imageUrl old)
     \<and> (upload_urls r \<noteq> [] \<longrightarrow>
           post_images new = JArr (map JStr (upload_urls r))
           \<and> post_imageUrl new = JStr (first_or_empty (upload_urls r)))
     \<and> post_updatedAt new = Some (new_date e)
     \<and> post_id new = post_id old \<and> post_date new = post_date old"
proof -
  from found have "ex \<in> set (filter (\<lambda>x. row_id x = params_id r) (posts d))" by simp
  then have "written_row ex" using reachable_written [OF reach] by simp
  then obtain xs where xs: "row_images ex = JArr (map JStr xs)"
      "row_image_url ex = Some (first_or_empty xs)"
    unfolding written_row_def by blast
  let ?imgs = "if upload_urls r = [] then xs else upload_urls r"
  from PUT_api_posts_id_success [OF ok(1-4) found xs refl] ok(5)
  obtain new where new: "mapDbPost (updated_row e r ?imgs ex) = Some new"
    and put: "PUT_api_posts_id A e r d =
       (SuccessPost new,
        d\<lparr>posts := map (\<lambda>x. if row_id x = params_id r
                              then updated_row e r ?imgs x else x) (posts d)\<rparr>)"
    by auto
  from ok(2,3) have fields: "title r = Some (or_empty (title r))"
      "content r = Some (or_empty (content r))"
    by (auto simp: falsy_def or_empty_def split: option.splits)
  from new fields put show ?thesis
    by (auto simp: mapDbPost_updated_row mapDbPost_written [OF xs])
qed

text \<open>
  The update of the server that keeps posts.json does the same in a reachable state,
  except that category and affiliate link are stored as the request has them.
\<close>

lemma update_overwrites_json:
  assumes reach: "reachable_json A f"
    and ok: "adminPassword r = A" "\<not> falsy (title r)" "\<not> falsy (content r)"
    and found: "findIndex (\<lambda>p. fp_id p = params_id r) (readPosts f) = Some i"
  shows "\<exists>new. PUT_api_posts_id_json A e r f
         = (SuccessPost new, PostsJson ((readPosts f)[i := new]))
     \<and> title r = Some (fp_title new) \<and> content r = Some (fp_content new)
     \<and> fp_category new = category r \<and> fp_affiliateLink new = affiliateLink r
     \<and> (upload_urls r = [] \<longrightarrow>
           fp_images new = fp_images (readPosts f ! i)
           \<and> fp_imageUrl new = fp_imageUrl (readPosts f ! i))
     \<and> (upload_urls r \<noteq> [] \<longrightarrow>
           fp_images new = Some (upload_urls r)
           \<and> fp_imageUrl new = Some (first_or_empty (upload_urls r)))
     \<and> fp_updatedAt new = Some (new_date e)
     \<and> fp_id new = fp_id (readPosts f ! i) \<and> fp_date new = fp_date (readPosts f ! i)"
proof -
  let ?old = "readPosts f ! i"
  from found have "i < length (readPosts f)" using findIndex_Some by fastforce
  then have "?old \<in> set (readPosts f)" by simp
  with reachable_json_first [OF reach] have first: "primary_is_first_json ?old" by simp
  then obtain xs where xs: "fp_images ?old = Some xs"
    by (auto simp: primary_is_first_json_def split: option.splits)
  with first have url: "fp_imageUrl ?old = Some (first_or_empty xs)"
    by (cases xs) (simp_all add: primary_is_first_json_def first_or_empty_def)
  from ok(2,3) have fields: "title r = Some (or_empty (title r))"
      "content r = Some (or_empty (content r))"
    by (auto simp: falsy_def or_empty_def split: option.splits)
  show ?thesis
  proof (cases "upload_urls r")
    case Nil
    with ok found fields xs url show ?thesis
      by (simp add: PUT_api_posts_id_json_eq updated_fpost_def Let_def or_empty_def)
  next
    case (Cons u us)
    with ok found fields show ?thesis
      by (simp add: PUT_api_posts_id_json_eq updated_fpost_def Let_def first_or_empty_def)
  qed
qed

text \<open>
  C4. An update overwrites category and affiliate link with the supplied values, and
  with the empty string when they are absent. The update of the server that keeps
  posts.json stores them as they come: without the two fields in the request, the
  post that had the empty string in both is left with \<open>undefined\<close> in both.
\<close>

theorem update_without_category_json:
  "fst (PUT_api_posts_id_json a_secret an_env (a_req a_secret 3000 []) a_file)
     = SuccessPost ((a_fpost 3000 3000)
         \<lparr>fp_category := None, fp_affiliateLink := None,
          fp_updatedAt := Some 1700000000001\<rparr>)"
  by code_simp

subsection \<open>Names of uploaded files\<close>

lemma digits_of_small: "n < 10 \<Longrightarrow> digits_of n = [0x30 + of_int n]"
  by (subst digits_of.simps) simp

lemma digits_of_big:
  "\<not> n < 10 \<Longrightarrow> digits_of n = digits_of (n div 10) @ [0x30 + of_int (n mod 10)]"
  by (subst digits_of.simps) simp

lemma uint_digit:
  assumes "0 \<le> d" and "d < 10"
  shows "uint (0x30 + of_int d :: jschar) = 48 + d"
proof -
  have "uint (of_int d :: jschar) = d"
    using assms by (simp add: uint_word_of_int)
  then show ?thesis
    using assms by (simp add: uint_word_ariths)
qed

lemma is_digit_uint: "is_digit c = (48 \<le> uint c \<and> uint c \<le> 57)"
  by (simp add: is_digit_def word_le_def)

lemma is_digit_digit: "0 \<le> d \<Longrightarrow> d < 10 \<Longrightarrow> is_digit (0x30 + of_int d)"
  by (simp add: is_digit_uint uint_digit)

lemma digits_of_digits:
  "0 \<le> n \<Longrightarrow> digits_of n \<noteq> [] \<and> (\<forall>c \<in> set (digits_of n). is_digit c)"
proof (induction n rule: digits_of.induct)
  case (1 n)
  show ?case
  proof (cases "n < 10")
    case True
    with "1.prems" show ?thesis by (simp add: digits_of_small is_digit_digit)
  next
    case False
    with "1.prems" have "0 \<le> n div 10" by simp
    with False "1.IH" have "\<forall>c \<in> set (digits_of (n div 10)). is_digit c" by simp
    moreover have "is_digit (0x30 + of_int (n mod 10))" by (simp add: is_digit_digit)
    ultimately show ?thesis
      using False by (simp add: digits_of_big)
  qed
qed

lemma digits_value_snoc: "digits_value (ds @ [c]) = 10 * digits_value ds + (uint c - 48)"
  by (simp add: digits_value_def)

lemma digits_value_digits_of: "0 \<le> n \<Longrightarrow> digits_value (digits_of n) = n"
proof (induction n rule: digits_of.induct)
  case (1 n)
  show ?case
  proof (cases "n < 10")
    case True
    with "1.prems" show ?thesis
      by (simp add: digits_of_small digits_value_def uint_digit)
  next
    case False
    with "1.prems" have "0 \<le> n div 10" by simp
    with False "1.IH" have ih: "digits_value (digits_of (n div 10)) = n div 10" by simp
    have "digits_value (digits_of n)
        = 10 * digits_value (digits_of (n div 10)) + (uint (0x30 + of_int (n mod 10) :: jschar) - 48)"
      using False by (simp add: digits_of_big digits_value_snoc)
    also have "\<dots> = 10 * (n div 10) + n mod 10"
      by (simp add: ih uint_digit)
    also have "\<dots> = n" by simp
    finally show ?thesis .
  qed
qed

lemma digits_of_inj:
  assumes "0 \<le> m" and "0 \<le> n" and "digits_of m = digits_of n"
  shows "m = n"
proof -
  from assms(3) have "digits_value (digits_of m) = digits_value (digits_of n)" by simp
  with assms(1,2) show ?thesis by (simp add: digits_value_digits_of)
qed

lemma minus_not_digit: "\<not> is_digit 0x2D"
  by (simp add: is_digit_def)

lemma dot_not_digit: "\<not> is_digit 0x2E"
  by (simp add: is_digit_def)

lemma split_digits:
  assumes "\<forall>c \<in> set ds. is_digit c" and "rest = [] \<or> \<not> is_digit (hd rest)"
  shows "takeWhile is_digit (ds @ rest) = ds" and "dropWhile is_digit (ds @ rest) = rest"
proof -
  from assms(2) have "takeWhile is_digit rest = []" and "dropWhile is_digit rest = rest"
    by (cases rest; auto)+
  with assms(1) show "takeWhile is_digit (ds @ rest) = ds"
    and "dropWhile is_digit (ds @ rest) = rest"
    by (simp_all add: takeWhile_append2 dropWhile_append2)
qed

lemma read_number_to_string:
  assumes "rest = [] \<or> \<not> is_digit (hd rest)"
  shows "read_number (number_to_string i @ rest) = (number_to_string i, rest)"
proof (cases "i < 0")
  case True
  then have "\<forall>c \<in> set (digits_of (- i)). is_digit c"
    using digits_of_digits [of "- i"] by simp
  from split_digits [OF this assms] True show ?thesis
    by (simp add: number_to_string_def)
next
  case False
  then have ds: "digits_of i \<noteq> []" "\<forall>c \<in> set (digits_of i). is_digit c"
    using digits_of_digits [of i] by simp_all
  then obtain c cs where c: "digits_of i = c # cs" by (cases "digits_of i") auto
  with ds(2) have "is_digit c" by simp
  then have "c \<noteq> 0x2D" using minus_not_digit by auto
  with split_digits [OF ds(2) assms] c False show ?thesis
    by (simp add: number_to_string_def)
qed

lemma number_to_string_inj:
  assumes "number_to_string i = number_to_string j"
  shows "i = j"
proof -
  have neg: "hd (number_to_string k) = 0x2D" if "k < 0" for k
    using that by (simp add: number_to_string_def)
  have pos: "is_digit (hd (number_to_string k))" if "\<not> k < 0" for k
    using that digits_of_digits [of k] by (simp add: number_to_string_def)
  show ?thesis
  proof (cases "i < 0")
    case True
    with assms neg pos minus_not_digit have "j < 0" by metis
    with True assms have "digits_of (- i) = digits_of (- j)" by (simp add: number_to_string_def)
    with True \<open>j < 0\<close> digits_of_inj [of "- i" "- j"] show ?thesis by simp
  next
    case False
    with assms neg pos minus_not_digit have "\<not> j < 0" by metis
    with False assms have "digits_of i = digits_of j" by (simp add: number_to_string_def)
    with False \<open>\<not> j < 0\<close> digits_of_inj [of i j] show ?thesis by simp
  qed
qed

lemma number_then_rest:
  assumes "number_to_string i @ rest = number_to_string j @ rest'"
    and "rest = [] \<or> \<not> is_digit (hd rest)" and "rest' = [] \<or> \<not> is_digit (hd rest')"
  shows "i = j \<and> rest = rest'"
proof -
  from assms(1) have "read_number (number_to_string i @ rest)
      = read_number (number_to_string j @ rest')"
    by simp
  then have "number_to_string i = number_to_string j \<and> rest = rest'"
    by (simp add: read_number_to_string assms(2,3))
  then show ?thesis by (simp add: number_to_string_inj)
qed

lemma extname_shape: "extname path = [] \<or> hd (extname path) = 0x2E"
  by (simp add: extname_def Let_def)

text \<open>
  C8. The image store names an uploaded file \<open>fieldname-timestamp-random\<close> followed by
  the extension of the original name, and the path recorded for the post is
  \<open>/uploads/\<close> followed by that name. Two names generated for the same field are
  the same exactly when the timestamps, the random components and the extensions
  are the same; in particular they differ whenever the timestamps or the random
  components differ.
\<close>

theorem generated_names:
  "(filename fieldname o1 t1 r1 = filename fieldname o2 t2 r2)
     = (t1 = t2 \<and> r1 = r2 \<and> extname o1 = extname o2)
   \<and> filename fieldname o1 t1 r1
       = fieldname @ js ''-'' @ number_to_string t1 @ js ''-'' @ number_to_string r1 @ extname o1
   \<and> suffix (extname o1) (filename fieldname o1 t1 r1)
   \<and> upload_urls (r \<lparr>files := Some [filename fieldname o1 t1 r1]\<rparr>)
       = [js ''/uploads/'' @ filename fieldname o1 t1 r1]"
proof -
  have ext: "extname p = [] \<or> \<not> is_digit (hd (extname p))" for p
    using extname_shape [of p] dot_not_digit by auto
  have dash: "\<not> is_digit (hd (0x2D # cs))" for cs
    by (simp add: minus_not_digit)
  have "t1 = t2 \<and> r1 = r2 \<and> extname o1 = extname o2"
    if "filename fieldname o1 t1 r1 = filename fieldname o2 t2 r2"
  proof -
    from that have eq: "number_to_string t1 @ (0x2D # number_to_string r1 @ extname o1)
        = number_to_string t2 @ (0x2D # number_to_string r2 @ extname o2)"
      by (simp add: filename_def js_def)
    from number_then_rest [OF eq] dash
    have t: "t1 = t2" and "number_to_string r1 @ extname o1 = number_to_string r2 @ extname o2"
      by simp_all
    from number_then_rest [OF this(2) ext ext] t show ?thesis by simp
  qed
  then show ?thesis
    by (auto simp: filename_def suffix_def upload_urls_def)
qed

text \<open>
  Two different files that arrive in the same millisecond and draw the same random
  number get the same name when their extensions agree.
\<close>

theorem generated_names_collide:
  "js ''a.png'' \<noteq> js ''b.png''
   \<and> filename (js ''images'') (js ''a.png'') 1700000000000 123456789
     = filename (js ''images'') (js ''b.png'') 1700000000000 123456789"
  by code_simp

end
